theory Spec2Isabelle
  imports Complex_Main "HOL-Library.Multiset"
begin

section \<open>Plaza refinement of simplicial meshes (PlazaRefinementND.cpp)\<close>

text \<open>
  A shallow embedding of the combinatorial parts of DOLFIN's rule-based longest-edge
  bisection. Indices of type \<open>std::size_t\<close> are natural numbers; where the source
  computes with them in a way that can wrap (64 bits) or truncates them to
  \<open>unsigned int\<close> (32 bits), the wrap-around is written out.
\<close>

subsection \<open>Failures\<close>

text \<open>
  \<open>AssertionFailed\<close>: a \<open>dolfin_assert\<close> that does not hold, in a build where
  assertions are compiled in. \<open>OutOfRange\<close>: an index beyond the extent of a
  \<open>std::vector\<close> or of the \<open>boost::multi_array\<close> (undefined behaviour in C++; the
  model stops there). \<open>DolfinError\<close>: the call of \<open>dolfin_error\<close> in \<open>refine\<close>, carrying
  the topological dimension it reports. \<open>NoGlobalIndices\<close>: the call of \<open>dolfin_error\<close>
  in \<open>build_mesh_value_collection\<close>.
\<close>

datatype error = AssertionFailed | OutOfRange | DolfinError nat | NoGlobalIndices

definition bind_err :: "error + 'a \<Rightarrow> ('a \<Rightarrow> error + 'b) \<Rightarrow> error + 'b" where
  "bind_err r f = (case r of Inl e \<Rightarrow> Inl e | Inr x \<Rightarrow> f x)"

definition index_at :: "'a list \<Rightarrow> nat \<Rightarrow> error + 'a" where
  "index_at xs i = (if i < length xs then Inr (xs ! i) else Inl OutOfRange)"

definition size_t_wrap :: "nat \<Rightarrow> nat" where
  "size_t_wrap n = n mod 2 ^ 64"

definition uint_wrap :: "nat \<Rightarrow> nat" where
  "uint_wrap n = n mod 2 ^ 32"

subsection \<open>get_triangles\<close>

text \<open>
  The macro \<open>dolfin_assert\<close> is declared in dolfin/log/log.h, which is not among the
  sources: whether assertions are compiled in is the parameter \<open>debug\<close>. With
  \<open>debug\<close> the asserted expression is evaluated (and its vector read can be out of
  range); without it the expression is not evaluated at all.
  The output vector \<open>tri_set\<close> is cleared first, so the result is the list of
  triangles pushed, each a list of three slots (0..2 vertices, 3..5 edge midpoints).
\<close>

definition get_triangles :: "bool \<Rightarrow> bool list \<Rightarrow> nat \<Rightarrow> error + nat list list" where
  "get_triangles debug marked_edges longest_edge =
     bind_err (if debug then index_at marked_edges longest_edge else Inr True) (\<lambda>asserted.
     if \<not> asserted then Inl AssertionFailed
     else
       let v0 = uint_wrap (size_t_wrap (longest_edge + 1) mod 3);
           v1 = uint_wrap (size_t_wrap (longest_edge + 2) mod 3);
           v2 = uint_wrap longest_edge;
           e0 = uint_wrap (v0 + 3);
           e1 = uint_wrap (v1 + 3);
           e2 = uint_wrap (v2 + 3)
       in
         bind_err (index_at marked_edges v0) (\<lambda>m0.
         let tri_set = (if m0 then [[e2, v2, e0], [e2, e0, v1]] else [[e2, v2, v1]]) in
         bind_err (index_at marked_edges v1) (\<lambda>m1.
         Inr (tri_set @ (if m1 then [[e2, v2, e1], [e2, e1, v0]] else [[e2, v2, v0]])))))"

subsection \<open>get_tetrahedra\<close>

text \<open>
  The connectivity matrix \<open>conn\<close> is the 10 by 10 \<open>boost::multi_array\<close>, kept as its
  100 entries in row-major order, all false at first.
\<close>

type_synonym conn = "bool list"

definition conn_init :: conn where
  "conn_init = replicate 100 False"

definition conn_set :: "nat \<Rightarrow> nat \<Rightarrow> conn \<Rightarrow> error + conn" where
  "conn_set i j conn =
     (if i < 10 \<and> j < 10 then Inr (conn[i * 10 + j := True]) else Inl OutOfRange)"

definition conn_get :: "conn \<Rightarrow> nat \<Rightarrow> nat \<Rightarrow> bool" where
  "conn_get conn i j = conn ! (i * 10 + j)"

text \<open>The static table \<open>edges[6][2]\<close>: the two end vertices of each edge.\<close>

definition edges :: "(nat \<times> nat) list" where
  "edges = [(2, 3), (1, 3), (1, 2), (0, 3), (0, 2), (0, 1)]"

definition edges_at :: "nat \<Rightarrow> nat \<Rightarrow> nat" where
  "edges_at e j = (if j = 0 then fst (edges ! e) else snd (edges ! e))"

text \<open>
  The body of the loop over the two facets \<open>j = 0, 1\<close> attached to the marked edge
  \<open>ei\<close> (lines 140 to 172).
\<close>

definition connect_facet :: "bool list \<Rightarrow> nat list \<Rightarrow> nat \<Rightarrow> nat \<Rightarrow> conn \<Rightarrow> error + conn" where
  "connect_facet marked_edges longest_edge ei j conn =
     (let e_opp = 5 - ei;
          fj = edges_at e_opp j
      in bind_err (index_at longest_edge fj) (\<lambda>le_j.
         if le_j = ei then
           (let fk = edges_at e_opp (1 - j)
            in bind_err (index_at longest_edge fk) (\<lambda>le_k.
               bind_err (conn_set fk (ei + 4) conn) (\<lambda>conn.
               bind_err (if le_k = ei then index_at marked_edges e_opp else Inr False) (\<lambda>diag.
               if diag then
                 bind_err (conn_set (ei + 4) (e_opp + 4) conn)
                   (conn_set (e_opp + 4) (ei + 4))
               else Inr conn))))
         else
           bind_err (conn_set (size_t_wrap (le_j + 4)) (ei + 4) conn)
             (conn_set (ei + 4) (size_t_wrap (le_j + 4)))))"

text \<open>The body of the loop over the six edges (lines 124 to 180).\<close>

definition connect_edge :: "bool list \<Rightarrow> nat list \<Rightarrow> nat \<Rightarrow> conn \<Rightarrow> error + conn" where
  "connect_edge marked_edges longest_edge ei conn =
     (let v0 = edges_at ei 0;
          v1 = edges_at ei 1
      in bind_err (index_at marked_edges ei) (\<lambda>marked.
         if marked then
           bind_err (conn_set v1 (ei + 4) conn) (\<lambda>conn.
           bind_err (conn_set v0 (ei + 4) conn) (\<lambda>conn.
           bind_err (connect_facet marked_edges longest_edge ei 0 conn)
             (connect_facet marked_edges longest_edge ei 1)))
         else
           bind_err (conn_set v1 v0 conn) (conn_set v0 v1)))"

fun connect_edges :: "bool list \<Rightarrow> nat list \<Rightarrow> nat list \<Rightarrow> conn \<Rightarrow> error + conn" where
  "connect_edges marked_edges longest_edge [] conn = Inr conn"
| "connect_edges marked_edges longest_edge (ei # eis) conn =
     bind_err (connect_edge marked_edges longest_edge ei conn)
       (connect_edges marked_edges longest_edge eis)"

text \<open>
  The enumeration (lines 183 to 209). \<open>facet_pairs\<close> is the double loop over the
  iterators \<open>p\<close> and \<open>q = p + 1, ...\<close> of \<open>facet_set\<close>; \<open>enumerate_tets\<close> is the loop
  over \<open>i\<close> and \<open>j\<close> with \<open>facet_set\<close> built from \<open>k = j + 1, ..., 9\<close>.
\<close>

fun facet_pairs :: "conn \<Rightarrow> nat \<Rightarrow> nat \<Rightarrow> nat list \<Rightarrow> nat list list" where
  "facet_pairs conn i j [] = []"
| "facet_pairs conn i j (p # qs) =
     map (\<lambda>q. [i, j, p, q]) (filter (\<lambda>q. conn_get conn p q) qs) @ facet_pairs conn i j qs"

definition facet_set :: "conn \<Rightarrow> nat \<Rightarrow> nat \<Rightarrow> nat list" where
  "facet_set conn i j = filter (\<lambda>k. conn_get conn i k \<and> conn_get conn j k) [j + 1..<10]"

definition tets_ij :: "conn \<Rightarrow> nat \<Rightarrow> nat \<Rightarrow> nat list list" where
  "tets_ij conn i j =
     (if conn_get conn i j then facet_pairs conn i j (facet_set conn i j) else [])"

definition enumerate_tets :: "conn \<Rightarrow> nat list list" where
  "enumerate_tets conn =
     concat (map (\<lambda>i. concat (map (tets_ij conn i) [i + 1..<10])) [0..<10])"

definition get_tetrahedra :: "bool list \<Rightarrow> nat list \<Rightarrow> error + nat list list" where
  "get_tetrahedra marked_edges longest_edge =
     bind_err (connect_edges marked_edges longest_edge [0..<6] conn_init)
       (\<lambda>conn. Inr (enumerate_tets conn))"

subsection \<open>get_simplices and refine\<close>

text \<open>
  \<open>get_simplices\<close> receives the output vector \<open>simplex_set\<close> by reference: the result
  is its content on return. Neither branch is taken for a dimension other than 2 and 3.
\<close>

definition get_simplices ::
  "bool \<Rightarrow> nat list list \<Rightarrow> bool list \<Rightarrow> nat list \<Rightarrow> nat \<Rightarrow> error + nat list list" where
  "get_simplices debug simplex_set marked_edges longest_edge tdim =
     (if tdim = 2 then
        (if debug \<and> length longest_edge \<noteq> 1 then Inl AssertionFailed
         else bind_err (index_at longest_edge 0) (get_triangles debug marked_edges))
      else if tdim = 3 then
        (if debug \<and> length longest_edge \<noteq> 4 then Inl AssertionFailed
         else get_tetrahedra marked_edges longest_edge)
      else Inr simplex_set)"

text \<open>
  The three overloads of \<open>refine\<close> start with the same check of the topological
  dimension, and \<open>dolfin_error\<close> does not return. What follows the check (the longest
  edges, the marking and \<open>do_refine\<close>, which need the classes Mesh and
  ParallelRefinement) is the parameter \<open>body\<close>: the new mesh it builds.
\<close>

definition refine :: "nat \<Rightarrow> 'mesh \<Rightarrow> error + 'mesh" where
  "refine tdim body = (if tdim \<noteq> 2 \<and> tdim \<noteq> 3 then Inl (DolfinError tdim) else Inr body)"

text \<open>
  Facet \<open>f\<close> of the tetrahedron is the one opposite vertex \<open>f\<close>: its edges are the
  edges that do not end in \<open>f\<close>. A longest-edge assignment is valid when it gives
  each of the four facets one of its own edges.
\<close>

definition edge_of_facet :: "nat \<Rightarrow> nat \<Rightarrow> bool" where
  "edge_of_facet e f = (e < 6 \<and> fst (edges ! e) \<noteq> f \<and> snd (edges ! e) \<noteq> f)"

definition valid_longest_edge :: "nat list \<Rightarrow> bool" where
  "valid_longest_edge longest_edge =
     (length longest_edge = 4 \<and> list_all (\<lambda>f. edge_of_facet (longest_edge ! f) f) [0..<4])"

subsection \<open>The mesh\<close>

text \<open>
  Modelled from the spec: the class Mesh is not among the sources. The record holds
  what the functions below ask of it: the topological dimension, the global index of
  each vertex, the length of each edge, and the connectivities they iterate over,
  entity indices in iteration order. A face is an entity of dimension 2, a facet one of
  dimension \<open>tdim - 1\<close>. \<open>parent_cell\<close> is the data array of that name.
  Edge lengths are doubles in the source; they are real numbers here, which leaves
  out NaN and rounding.
\<close>

record mesh =
  topology_dim :: nat
  vertex_global_index :: "nat \<Rightarrow> nat"
  edge_length :: "nat \<Rightarrow> real"
  face_vertices :: "nat list list"
  face_edges :: "nat list list"
  cell_facets :: "nat list list"
  facet_vertices :: "nat list list"
  facet_edges :: "nat list list"
  parent_cell :: "nat list"

text \<open>A loop whose body can fail: the first failure ends it.\<close>

fun fold_err :: "('a \<Rightarrow> 's \<Rightarrow> error + 's) \<Rightarrow> 'a list \<Rightarrow> 's \<Rightarrow> error + 's" where
  "fold_err f [] s = Inr s"
| "fold_err f (x # xs) s = bind_err (f x s) (fold_err f xs)"

subsection \<open>face_long_edge\<close>

text \<open>
  The body of the loop over the edges of face \<open>f\<close> (lines 228 to 239): \<open>pos\<close> is
  \<open>e.pos()\<close>, and the vertex compared is \<open>f->entities(0)[e.pos()]\<close>, read through a
  plain pointer.
\<close>

definition long_edge_step ::
  "mesh \<Rightarrow> nat \<Rightarrow> nat \<Rightarrow> nat \<times> nat \<times> real \<Rightarrow> error + nat \<times> nat \<times> real" where
  "long_edge_step mesh f pos = (\<lambda>(imax, gimax, max_len).
     let e = face_edges mesh ! f ! pos;
         e_len = edge_length mesh e
     in bind_err (index_at (face_vertices mesh ! f) pos) (\<lambda>v.
        let global_i = vertex_global_index mesh v
        in if e_len > max_len \<or> (e_len = max_len \<and> global_i > gimax)
           then Inr (e, global_i, e_len)
           else Inr (imax, gimax, max_len)))"

definition face_long_edge_at :: "mesh \<Rightarrow> nat \<Rightarrow> error + nat" where
  "face_long_edge_at mesh f =
     bind_err (fold_err (long_edge_step mesh f) [0..<length (face_edges mesh ! f)] (0, 0, 0))
       (\<lambda>(imax, gimax, max_len). Inr imax)"

definition face_long_edge :: "mesh \<Rightarrow> error + nat list" where
  "face_long_edge mesh =
     fold_err (\<lambda>f result. bind_err (face_long_edge_at mesh f) (\<lambda>imax. Inr (result[f := imax])))
       [0..<length (face_edges mesh)] (replicate (length (face_edges mesh)) 0)"

subsection \<open>enforce_rules\<close>

text \<open>
  Modelled from the spec: the class ParallelRefinement is not among the sources. Its
  marker is one boolean per edge of the mesh; \<open>is_marked\<close> reads it and \<open>mark\<close> sets
  it (marks are only ever added), both at an edge index of the mesh.
\<close>

definition is_marked :: "bool list \<Rightarrow> nat \<Rightarrow> error + bool" where
  "is_marked marked_edges edge_index = index_at marked_edges edge_index"

definition mark :: "nat \<Rightarrow> bool list \<Rightarrow> error + bool list" where
  "mark edge_index marked_edges =
     (if edge_index < length marked_edges then Inr (marked_edges[edge_index := True])
      else Inl OutOfRange)"

text \<open>
  Modelled from the spec: \<open>MPI::sum\<close> is not among the sources. It is the global sum
  reduction of a scalar over the processes of the communicator: what it returns to a
  process is the count of that process plus the counts of all the other processes. The sum
  of the counts of the others is the parameter \<open>others\<close>; it is zero when the process runs
  alone.
\<close>

definition MPI_sum :: "nat \<Rightarrow> nat \<Rightarrow> nat" where
  "MPI_sum others update_count = update_count + others"

text \<open>
  The body of the loop over the faces (lines 263 to 273), on the pair of the marker
  and \<open>update_count\<close>.
\<close>

definition enforce_face ::
  "mesh \<Rightarrow> nat list \<Rightarrow> nat \<Rightarrow> bool list \<times> nat \<Rightarrow> error + bool list \<times> nat" where
  "enforce_face mesh long_edge f = (\<lambda>(marked_edges, update_count).
     bind_err (index_at long_edge f) (\<lambda>long_e.
     bind_err (is_marked marked_edges long_e) (\<lambda>long_marked.
     if long_marked then Inr (marked_edges, update_count)
     else
       bind_err (fold_err (\<lambda>e any_marked.
                   bind_err (is_marked marked_edges e) (\<lambda>b. Inr (any_marked \<or> b)))
                 (face_edges mesh ! f) False) (\<lambda>any_marked.
       if any_marked then
         bind_err (mark long_e marked_edges) (\<lambda>marked_edges.
         Inr (marked_edges, update_count + 1))
       else Inr (marked_edges, update_count)))))"

text \<open>
  One round of the while loop, up to the global sum. The call
  \<open>p_ref.update_logical_edgefunction()\<close>, which synchronises the markers across
  process boundaries, belongs to ParallelRefinement: it is the parameter \<open>sync\<close>.
\<close>

definition enforce_round ::
  "(bool list \<Rightarrow> bool list) \<Rightarrow> mesh \<Rightarrow> nat list \<Rightarrow> bool list \<Rightarrow> error + bool list \<times> nat" where
  "enforce_round sync mesh long_edge marked_edges =
     fold_err (enforce_face mesh long_edge) [0..<length (face_edges mesh)]
       (sync marked_edges, 0)"

text \<open>
  The while loop, which nothing in the source bounds: the first argument is the number
  of rounds allowed, and \<open>None\<close> means that they did not suffice. The argument \<open>others\<close>
  gives, for each round of the call counted from 0, the sum of the update counts of the
  other processes in that round.
\<close>

fun enforce_rules ::
  "nat \<Rightarrow> (bool list \<Rightarrow> bool list) \<Rightarrow> (nat \<Rightarrow> nat) \<Rightarrow> mesh \<Rightarrow> nat list \<Rightarrow> bool list
     \<Rightarrow> (error + bool list) option" where
  "enforce_rules 0 sync others mesh long_edge marked_edges = None"
| "enforce_rules (Suc rounds) sync others mesh long_edge marked_edges =
     (case enforce_round sync mesh long_edge marked_edges of
        Inl e \<Rightarrow> Some (Inl e)
      | Inr (marked_edges', update_count) \<Rightarrow>
          if MPI_sum (others 0) update_count = 0 then Some (Inr marked_edges')
          else enforce_rules rounds sync (\<lambda>k. others (Suc k)) mesh long_edge marked_edges')"

text \<open>
  What the rule asks of a marker: every face with a marked edge has its longest edge
  marked.
\<close>

definition rule_holds :: "mesh \<Rightarrow> nat list \<Rightarrow> bool list \<Rightarrow> bool" where
  "rule_holds mesh long_edge marked_edges =
     list_all (\<lambda>f. list_ex (\<lambda>e. marked_edges ! e) (face_edges mesh ! f)
                      \<longrightarrow> marked_edges ! (long_edge ! f))
       [0..<length (face_edges mesh)]"

text \<open>
  A mesh with \<open>n\<close> edges, a longest edge for each of its faces and a marker for it:
  every index is the index of an edge.
\<close>

definition edges_in_range :: "mesh \<Rightarrow> nat list \<Rightarrow> nat \<Rightarrow> bool" where
  "edges_in_range mesh long_edge n =
     (length long_edge = length (face_edges mesh)
      \<and> list_all (\<lambda>e. e < n) long_edge
      \<and> list_all (list_all (\<lambda>e. e < n)) (face_edges mesh))"

definition only_adds :: "(bool list \<Rightarrow> bool list) \<Rightarrow> nat \<Rightarrow> bool" where
  "only_adds sync n = (\<forall>m. length m = n \<longrightarrow>
     length (sync m) = n \<and> (\<forall>e<n. m ! e \<longrightarrow> sync m ! e))"

definition unmarked :: "bool list \<Rightarrow> nat" where
  "unmarked marked_edges = length (filter Not marked_edges)"

text \<open>
  What is asked of the other processes, which run the same loop on their part of the
  mesh: from round \<open>K\<close> on they count no update (\<open>quiet_from\<close>). \<open>busy_rounds\<close> is the
  number of rounds before \<open>K\<close> in which they count one; as such a round marks an edge
  that was not marked, it is at most the number of their edges.
\<close>

definition quiet_from :: "(nat \<Rightarrow> nat) \<Rightarrow> nat \<Rightarrow> bool" where
  "quiet_from others K = (\<forall>k\<ge>K. others k = 0)"

definition busy_rounds :: "(nat \<Rightarrow> nat) \<Rightarrow> nat \<Rightarrow> nat" where
  "busy_rounds others K = length (filter (\<lambda>k. others k \<noteq> 0) [0..<K])"

text \<open>
  An example: two triangles with the vertices 0, 1, 2 and 1, 2, 3, that share edge 2.
  Face 0 has the edges 2, 3, 4 and face 1 the edges 0, 1, 2; every edge has length 2
  except edge 0, of length 1.
\<close>

definition two_triangles :: mesh where
  "two_triangles =
     \<lparr>topology_dim = 2, vertex_global_index = (\<lambda>v. v),
      edge_length = (\<lambda>e. if e = 0 then 1 else 2),
      face_vertices = [[3, 2, 1], [1, 2, 0]], face_edges = [[2, 3, 4], [0, 1, 2]],
      cell_facets = [[2, 3, 4], [0, 1, 2]],
      facet_vertices = [[0, 2], [0, 1], [1, 2], [1, 3], [2, 3]],
      facet_edges = [], parent_cell = []\<rparr>"



text \<open>
  A face of a mesh as the mesh classes build it: as many vertices as edges, at least
  one edge, edges of positive length, and vertices with different global indices.
\<close>

definition proper_face :: "mesh \<Rightarrow> nat \<Rightarrow> bool" where
  "proper_face mesh f =
     (length (face_vertices mesh ! f) = length (face_edges mesh ! f)
      \<and> face_edges mesh ! f \<noteq> []
      \<and> list_all (\<lambda>e. 0 < edge_length mesh e) (face_edges mesh ! f)
      \<and> distinct (map (vertex_global_index mesh) (face_vertices mesh ! f)))"

definition proper_faces :: "mesh \<Rightarrow> bool" where
  "proper_faces mesh = list_all (proper_face mesh) [0..<length (face_edges mesh)]"

text \<open>
  The second triangle of \<open>two_triangles\<close> alone, as another process may hold it: its
  edges carry other local indices and come in another order.
\<close>

definition one_triangle :: mesh where
  "one_triangle =
     \<lparr>topology_dim = 2, vertex_global_index = (\<lambda>v. [2, 0, 1] ! v),
      edge_length = (\<lambda>e. if e = 1 then 1 else 2),
      face_vertices = [[0, 1, 2]], face_edges = [[2, 0, 1]],
      cell_facets = [[2, 0, 1]],
      facet_vertices = [[0, 2], [0, 1], [1, 2]],
      facet_edges = [], parent_cell = []\<rparr>"

text \<open>
  The same triangle with the same vertices, edge lengths and global indices, its edges
  enumerated in another order.
\<close>

definition one_triangle_reordered :: mesh where
  "one_triangle_reordered = one_triangle\<lparr>face_edges := [[0, 1, 2]]\<rparr>"

text \<open>
  What the specification says of the edge selected, in its own words: an edge of the
  face of greatest length, and among those of greatest length the one whose opposite
  vertex has the greatest global index. The vertex opposite an edge is the vertex of the
  face that is not an end of the edge; \<open>edge_vertices\<close> gives the ends of every edge,
  which \<open>face_long_edge\<close> never reads. \<open>opposite_paired\<close> says that the face lists each
  edge at the position of its opposite vertex.
\<close>

definition opposite_global :: "mesh \<Rightarrow> nat list list \<Rightarrow> nat \<Rightarrow> nat \<Rightarrow> nat" where
  "opposite_global mesh edge_vertices f e =
     (case filter (\<lambda>v. v \<notin> set (edge_vertices ! e)) (face_vertices mesh ! f) of
        [] \<Rightarrow> 0
      | v # vs \<Rightarrow> vertex_global_index mesh v)"

definition spec_long_edge :: "mesh \<Rightarrow> nat list list \<Rightarrow> nat \<Rightarrow> nat \<Rightarrow> bool" where
  "spec_long_edge mesh edge_vertices f e =
     (e \<in> set (face_edges mesh ! f)
      \<and> list_all (\<lambda>e'. edge_length mesh e' < edge_length mesh e
                \<or> (edge_length mesh e' = edge_length mesh e
                    \<and> opposite_global mesh edge_vertices f e'
                        \<le> opposite_global mesh edge_vertices f e))
          (face_edges mesh ! f))"


subsection \<open>set_parent_facet_markers\<close>

text \<open>
  The value \<open>std::numeric_limits<std::size_t>::max()\<close> that marks a facet without
  parent.
\<close>

definition no_parent :: nat where
  "no_parent = 2 ^ 64 - 1"

text \<open>
  A \<open>std::set<std::size_t>\<close> is kept as the list of its elements in increasing order,
  the order in which the source iterates over it.
\<close>

definition set_insert :: "nat \<Rightarrow> nat list \<Rightarrow> nat list" where
  "set_insert x xs = (if x \<in> set xs then xs else insort x xs)"

text \<open>
  The map from parent cells to child cells (lines 485 to 490): one set for each cell
  of \<open>mesh\<close>, filled from the array \<open>parent_cell\<close> of \<open>new_mesh\<close>.
\<close>

definition reverse_cell_map :: "mesh \<Rightarrow> mesh \<Rightarrow> error + nat list list" where
  "reverse_cell_map mesh new_mesh =
     fold_err (\<lambda>cell_index rmap.
         bind_err (index_at (parent_cell new_mesh) cell_index) (\<lambda>p.
         bind_err (index_at rmap p) (\<lambda>children.
         Inr (rmap[p := set_insert cell_index children]))))
       [0..<length (cell_facets new_mesh)]
       (replicate (length (cell_facets mesh)) [])"

text \<open>
  The vertex set of facet \<open>f\<close> of a parent cell (lines 501 to 525): the global indices
  of its vertices and, for each divided edge of the facet, the new vertex. In two
  dimensions the facet is the edge; \<open>new_vertex_map\<close> is the \<open>std::map\<close> from edges to new
  vertices.
\<close>

definition parent_facet_set :: "mesh \<Rightarrow> (nat \<rightharpoonup> nat) \<Rightarrow> nat \<Rightarrow> nat list" where
  "parent_facet_set mesh new_vertex_map f =
     (let vset = fold (\<lambda>v vset. set_insert (vertex_global_index mesh v) vset)
                   (facet_vertices mesh ! f) []
      in if topology_dim mesh = 2 then
           (case new_vertex_map f of None \<Rightarrow> vset | Some nv \<Rightarrow> set_insert nv vset)
         else if topology_dim mesh = 3 then
           fold (\<lambda>e vset. case new_vertex_map e of None \<Rightarrow> vset
                           | Some nv \<Rightarrow> set_insert nv vset)
             (facet_edges mesh ! f) vset
         else vset)"

text \<open>
  Lines 545 to 553: all vertices of facet \<open>f\<close> of the new mesh lie in \<open>vset\<close>. The loop
  leaves at the first vertex that does not; its result is the same.
\<close>

definition vertex_match :: "mesh \<Rightarrow> nat list \<Rightarrow> nat \<Rightarrow> bool" where
  "vertex_match new_mesh vset f =
     list_all (\<lambda>v. vertex_global_index new_mesh v \<in> set vset) (facet_vertices new_mesh ! f)"

text \<open>
  Lines 537 to 557, for facet \<open>f\<close> of a child cell: when the facet has no parent yet,
  the loop over all the vertex sets of the parent cell, which writes at every set that
  matches. \<open>pfacets\<close> is \<open>pcell->entities(tdim - 1)\<close>.
\<close>

definition tag_child_facet ::
  "mesh \<Rightarrow> nat list list \<Rightarrow> nat list \<Rightarrow> nat \<Rightarrow> nat list \<Rightarrow> error + nat list" where
  "tag_child_facet new_mesh facet_sets pfacets f new_parent_facet =
     bind_err (index_at new_parent_facet f) (\<lambda>current.
     if current = no_parent then
       fold_err (\<lambda>i new_parent_facet.
           if vertex_match new_mesh (facet_sets ! i) f
           then Inr (new_parent_facet[f := pfacets ! i])
           else Inr new_parent_facet)
         [0..<length facet_sets] new_parent_facet
     else Inr new_parent_facet)"

text \<open>The body of the loop over the parent cells (lines 497 to 559).\<close>

definition tag_children ::
  "mesh \<Rightarrow> mesh \<Rightarrow> (nat \<rightharpoonup> nat) \<Rightarrow> nat list list \<Rightarrow> nat \<Rightarrow> nat list \<Rightarrow> error + nat list" where
  "tag_children mesh new_mesh new_vertex_map rmap pcell new_parent_facet =
     (let facet_sets = map (parent_facet_set mesh new_vertex_map) (cell_facets mesh ! pcell)
      in bind_err (index_at rmap pcell) (\<lambda>children.
         fold_err (\<lambda>child_index.
             fold_err (tag_child_facet new_mesh facet_sets (cell_facets mesh ! pcell))
               (cell_facets new_mesh ! child_index))
           children new_parent_facet))"

text \<open>
  The result is the array \<open>parent_facet\<close> of the new mesh, one entry for each of its
  facets.
\<close>

definition set_parent_facet_markers :: "mesh \<Rightarrow> mesh \<Rightarrow> (nat \<rightharpoonup> nat) \<Rightarrow> error + nat list" where
  "set_parent_facet_markers mesh new_mesh new_vertex_map =
     bind_err (reverse_cell_map mesh new_mesh) (\<lambda>rmap.
     fold_err (tag_children mesh new_mesh new_vertex_map rmap)
       [0..<length (cell_facets mesh)]
       (replicate (length (facet_vertices new_mesh)) no_parent))"


text \<open>
  The global vertex set of a facet of the new mesh, and the condition on the two meshes
  under which every index is in range: each cell of the new mesh has a parent among
  the cells of \<open>mesh\<close>, and its facets are facets of the new mesh.
\<close>

definition facet_global_vertices :: "mesh \<Rightarrow> nat \<Rightarrow> nat set" where
  "facet_global_vertices new_mesh f =
     vertex_global_index new_mesh ` set (facet_vertices new_mesh ! f)"

definition children_in_range :: "mesh \<Rightarrow> mesh \<Rightarrow> bool" where
  "children_in_range mesh new_mesh =
     (length (parent_cell new_mesh) = length (cell_facets new_mesh)
      \<and> list_all (\<lambda>p. p < length (cell_facets mesh)) (parent_cell new_mesh)
      \<and> list_all (list_all (\<lambda>f. f < length (facet_vertices new_mesh))) (cell_facets new_mesh))"

text \<open>
  An example: one tetrahedron with the vertices 0 to 3, facet \<open>i\<close> opposite vertex \<open>i\<close>
  and the edges numbered as in \<open>edges\<close>; and a new mesh of one flat cell with the
  vertices 0, 2, 3 and 4, where 4 is the new vertex on edge 0, between 2 and 3.
\<close>

definition tetrahedron :: mesh where
  "tetrahedron =
     \<lparr>topology_dim = 3, vertex_global_index = (\<lambda>v. v), edge_length = (\<lambda>e. 1),
      face_vertices = [[1, 2, 3], [0, 2, 3], [0, 1, 3], [0, 1, 2]],
      face_edges = [[0, 1, 2], [0, 3, 4], [1, 3, 5], [2, 4, 5]],
      cell_facets = [[0, 1, 2, 3]],
      facet_vertices = [[1, 2, 3], [0, 2, 3], [0, 1, 3], [0, 1, 2]],
      facet_edges = [[0, 1, 2], [0, 3, 4], [1, 3, 5], [2, 4, 5]],
      parent_cell = []\<rparr>"


text \<open>
  Entry \<open>v\<close> is a sound tag of facet \<open>k\<close> of the new mesh: \<open>k\<close> is a facet of a cell
  whose parent cell has \<open>v\<close> in its list of facets, and the vertex set of that parent
  facet contains the global vertex set of \<open>k\<close>. \<open>tags_sound\<close> says so of every entry of
  the array that is not \<open>no_parent\<close>.
\<close>

definition tagged_by_parent :: "mesh \<Rightarrow> mesh \<Rightarrow> (nat \<rightharpoonup> nat) \<Rightarrow> nat \<Rightarrow> nat \<Rightarrow> bool" where
  "tagged_by_parent mesh new_mesh new_vertex_map k v =
     (\<exists>c<length (cell_facets new_mesh). k \<in> set (cell_facets new_mesh ! c)
        \<and> (\<exists>i<length (cell_facets mesh ! (parent_cell new_mesh ! c)).
              v = cell_facets mesh ! (parent_cell new_mesh ! c) ! i
            \<and> facet_global_vertices new_mesh k
                \<subseteq> set (parent_facet_set mesh new_vertex_map
                         (cell_facets mesh ! (parent_cell new_mesh ! c) ! i))))"

definition tags_sound :: "mesh \<Rightarrow> mesh \<Rightarrow> (nat \<rightharpoonup> nat) \<Rightarrow> nat list \<Rightarrow> bool" where
  "tags_sound mesh new_mesh new_vertex_map new_parent_facet =
     (length new_parent_facet = length (facet_vertices new_mesh)
      \<and> (\<forall>k<length new_parent_facet. new_parent_facet ! k = no_parent
            \<or> tagged_by_parent mesh new_mesh new_vertex_map k (new_parent_facet ! k)))"

text \<open>
  The same tetrahedron bisected at edge 0, as \<open>get_tetrahedra\<close> divides it when only
  that edge is marked: the cells 0, 1, 2, 4 and 0, 1, 3, 4 with the new vertex 4. Facet 0
  of the new mesh, with the vertices 0, 1, 4, is the cut between the two cells.
\<close>

definition bisected :: mesh where
  "bisected =
     \<lparr>topology_dim = 3, vertex_global_index = (\<lambda>v. v), edge_length = (\<lambda>e. 1),
      face_vertices = [[0, 1, 4], [1, 2, 4], [0, 2, 4], [0, 1, 2], [1, 3, 4], [0, 3, 4], [0, 1, 3]],
      face_edges = [],
      cell_facets = [[1, 2, 0, 3], [4, 5, 0, 6]],
      facet_vertices = [[0, 1, 4], [1, 2, 4], [0, 2, 4], [0, 1, 2], [1, 3, 4], [0, 3, 4], [0, 1, 3]],
      facet_edges = [],
      parent_cell = [0, 0]\<rparr>"

section \<open>Redistribution of mesh values (MeshPartitioning.h)\<close>

text \<open>
  Modelled from the spec: the class MeshValueCollection is not among the sources. A
  collection maps pairs of a cell index and the local index of an entity within the cell
  to values; \<open>set_value\<close> stores a value at such a pair, \<open>clear\<close> leaves the empty map.
\<close>

type_synonym 'v markers = "nat \<times> nat \<rightharpoonup> 'v"

definition set_value :: "nat \<Rightarrow> nat \<Rightarrow> 'v \<Rightarrow> 'v markers \<Rightarrow> 'v markers" where
  "set_value cell_index local_entity v markers = markers((cell_index, local_entity) \<mapsto> v)"

text \<open>
  Lines 232 to 234: the map from the global index of a local cell to its local index,
  where a later cell replaces an earlier one with the same global index.
\<close>

definition map_of_global_entity_indices :: "nat list \<Rightarrow> (nat \<rightharpoonup> nat)" where
  "map_of_global_entity_indices global_entity_indices =
     fold (\<lambda>i m. m(global_entity_indices ! i \<mapsto> i))
       [0..<length global_entity_indices] Map.empty"

text \<open>
  Lines 236 to 250, on the pair of the collection and the vector
  \<open>off_process_global_cell_entities\<close>. \<open>ldata\<close> is the vector of tuples
  ((global cell index, local entity index), value).
\<close>

definition apply_local_step ::
  "nat list \<Rightarrow> (nat \<times> nat) \<times> 'v \<Rightarrow> 'v markers \<times> nat list \<Rightarrow> 'v markers \<times> nat list" where
  "apply_local_step global_entity_indices entry = (\<lambda>(markers, off_process).
     let global_cell_index = fst (fst entry)
     in case map_of_global_entity_indices global_entity_indices global_cell_index of
          Some local_cell_index \<Rightarrow>
            (set_value local_cell_index (snd (fst entry)) (snd entry) markers, off_process)
        | None \<Rightarrow> (markers, off_process @ [global_cell_index]))"

definition apply_local ::
  "nat list \<Rightarrow> ((nat \<times> nat) \<times> 'v) list \<Rightarrow> 'v markers \<times> nat list" where
  "apply_local global_entity_indices ldata =
     fold (apply_local_step global_entity_indices) ldata (Map.empty, [])"

text \<open>
  Lines 270 to 272: the positions in \<open>ldata\<close> of the tuples of each global cell index,
  a \<open>std::set\<close> for each key of the \<open>std::map\<close>.
\<close>

definition map_of_ldata :: "((nat \<times> nat) \<times> 'v) list \<Rightarrow> (nat \<rightharpoonup> nat list)" where
  "map_of_ldata ldata =
     fold (\<lambda>i m. let g = fst (fst (ldata ! i))
                  in m(g \<mapsto> set_insert i (case m g of None \<Rightarrow> [] | Some s \<Rightarrow> s)))
       [0..<length ldata] Map.empty"

text \<open>
  Lines 296 to 300: the three calls of \<open>push_back\<close> for one destination, on the pair of
  \<open>send_data0\<close> and \<open>send_data1\<close>.
\<close>

definition push_to ::
  "nat \<times> nat \<times> nat \<times> 'v \<Rightarrow> nat list list \<times> 'v list list
     \<Rightarrow> error + nat list list \<times> 'v list list" where
  "push_to q = (\<lambda>(send_data0, send_data1).
     case q of (proc, local_cell_entity, local_entity_index, domain_value) \<Rightarrow>
       if proc < length send_data0 \<and> proc < length send_data1 then
         Inr (send_data0[proc := send_data0 ! proc @ [local_cell_entity, local_entity_index]],
              send_data1[proc := send_data1 ! proc @ [domain_value]])
       else Inl OutOfRange)"

text \<open>
  Lines 263 to 304. \<open>entity_hosts\<close> is what \<open>locate_off_process_entities\<close> returned: for
  each global cell index the pairs (process, local cell index on that process), both the
  \<open>std::map\<close> and its \<open>std::set\<close>s as lists in the order of iteration.
\<close>

definition pack ::
  "nat \<Rightarrow> ((nat \<times> nat) \<times> 'v) list \<Rightarrow> (nat \<times> (nat \<times> nat) list) list
     \<Rightarrow> error + nat list list \<times> 'v list list" where
  "pack num_processes ldata entity_hosts =
     fold_err (\<lambda>entity_host bufs.
         case map_of_ldata ldata (fst entity_host) of
           None \<Rightarrow> Inr bufs
         | Some its \<Rightarrow>
             fold_err (\<lambda>it.
                 fold_err (\<lambda>process_data.
                     push_to (fst process_data, snd process_data,
                              snd (fst (ldata ! it)), snd (ldata ! it)))
                   (snd entity_host))
               its bufs)
       entity_hosts (replicate num_processes [], replicate num_processes [])"

text \<open>
  Lines 316 to 324 for one source process: \<open>received0\<close> and \<open>received1\<close> are its index
  buffer and its value buffer, \<open>num_cells\<close> is \<open>mesh.num_cells()\<close>.
\<close>

definition receive_from ::
  "bool \<Rightarrow> nat \<Rightarrow> nat list \<Rightarrow> 'v list \<Rightarrow> 'v markers \<Rightarrow> error + 'v markers" where
  "receive_from debug num_cells received0 received1 markers =
     (if debug \<and> 2 * length received1 \<noteq> length received0 then Inl AssertionFailed
      else
        fold_err (\<lambda>i markers.
            bind_err (index_at received0 (2 * i)) (\<lambda>local_cell_entity.
            bind_err (index_at received0 (2 * i + 1)) (\<lambda>local_entity_index.
            let v = received1 ! i
            in if debug \<and> \<not> local_cell_entity < num_cells then Inl AssertionFailed
               else Inr (set_value local_cell_entity local_entity_index v markers))))
          [0..<length received1] markers)"

definition receive ::
  "bool \<Rightarrow> nat \<Rightarrow> nat \<Rightarrow> nat list list \<Rightarrow> 'v list list \<Rightarrow> 'v markers
     \<Rightarrow> error + 'v markers" where
  "receive debug num_cells num_processes received_data0 received_data1 markers =
     fold_err (\<lambda>p markers.
         bind_err (index_at received_data1 p) (\<lambda>received1.
         bind_err (index_at received_data0 p) (\<lambda>received0.
         receive_from debug num_cells received0 received1 markers)))
       [0..<num_processes] markers"

text \<open>
  The whole function on one process. Of the mesh it reads \<open>have_global_indices\<close>, the
  global indices of its cells and their number. \<open>locate\<close> stands for
  \<open>DistributedMeshTools::locate_off_process_entities\<close> and \<open>exchange\<close> for the two calls of
  \<open>MPI::all_to_all\<close>, which give this process the buffers the others packed for it;
  neither is among the sources.
\<close>

definition build_mesh_value_collection ::
  "bool \<Rightarrow> bool \<Rightarrow> nat \<Rightarrow> nat \<Rightarrow> nat list
     \<Rightarrow> (nat list \<Rightarrow> (nat \<times> (nat \<times> nat) list) list)
     \<Rightarrow> (nat list list \<times> 'v list list \<Rightarrow> nat list list \<times> 'v list list)
     \<Rightarrow> ((nat \<times> nat) \<times> 'v) list \<Rightarrow> error + 'v markers" where
  "build_mesh_value_collection debug have_global_indices num_cells num_processes
       global_entity_indices locate exchange ldata =
     (if \<not> have_global_indices then Inl NoGlobalIndices
      else
        case apply_local global_entity_indices ldata of (markers, off_process) \<Rightarrow>
          bind_err (pack num_processes ldata (locate off_process)) (\<lambda>send_data.
          case exchange send_data of (received_data0, received_data1) \<Rightarrow>
            receive debug num_cells num_processes received_data0 received_data1 markers))"

text \<open>
  For the statements: the calls of \<open>push_to\<close> that \<open>pack\<close> makes, in order, as tuples
  (process, local cell, local entity, value); the triples among them that go to process
  \<open>p\<close>; and the index buffer and the value buffer that hold a list of triples.
\<close>

definition all_pushes ::
  "((nat \<times> nat) \<times> 'v) list \<Rightarrow> (nat \<times> (nat \<times> nat) list) list
     \<Rightarrow> (nat \<times> nat \<times> nat \<times> 'v) list" where
  "all_pushes ldata entity_hosts =
     concat (map (\<lambda>entity_host.
         case map_of_ldata ldata (fst entity_host) of
           None \<Rightarrow> []
         | Some its \<Rightarrow>
             concat (map (\<lambda>it.
                 map (\<lambda>process_data. (fst process_data, snd process_data,
                                       snd (fst (ldata ! it)), snd (ldata ! it)))
                   (snd entity_host))
               its))
       entity_hosts)"

definition triples_for :: "nat \<Rightarrow> (nat \<times> nat \<times> nat \<times> 'v) list \<Rightarrow> (nat \<times> nat \<times> 'v) list" where
  "triples_for p qs = map snd (filter (\<lambda>q. fst q = p) qs)"

definition index_buffer :: "(nat \<times> nat \<times> 'v) list \<Rightarrow> nat list" where
  "index_buffer ts = concat (map (\<lambda>t. [fst t, fst (snd t)]) ts)"

definition value_buffer :: "(nat \<times> nat \<times> 'v) list \<Rightarrow> 'v list" where
  "value_buffer ts = map (\<lambda>t. snd (snd t)) ts"

definition apply_triple :: "nat \<times> nat \<times> 'v \<Rightarrow> 'v markers \<Rightarrow> 'v markers" where
  "apply_triple t = set_value (fst t) (fst (snd t)) (snd (snd t))"


definition local_triples ::
  "nat list \<Rightarrow> ((nat \<times> nat) \<times> 'v) list \<Rightarrow> (nat \<times> nat \<times> 'v) list" where
  "local_triples global_entity_indices ldata =
     map (\<lambda>entry. (the (map_of_global_entity_indices global_entity_indices (fst (fst entry))),
                    snd (fst entry), snd entry))
       (filter (\<lambda>entry. fst (fst entry) \<in> set global_entity_indices) ldata)"

definition off_process_of :: "nat list \<Rightarrow> ((nat \<times> nat) \<times> 'v) list \<Rightarrow> nat list" where
  "off_process_of global_entity_indices ldata =
     map (\<lambda>entry. fst (fst entry))
       (filter (\<lambda>entry. fst (fst entry) \<notin> set global_entity_indices) ldata)"


section \<open>Properties of the simplex generator\<close>

lemma index_at_in_range [simp]: "i < length xs \<Longrightarrow> index_at xs i = Inr (xs ! i)"
  by (simp add: index_at_def)

lemma bind_err_Inr [simp]: "bind_err (Inr x) f = f x"
  by (simp add: bind_err_def)

lemma bind_err_Inl [simp]: "bind_err (Inl e) f = Inl e"
  by (simp add: bind_err_def)

lemma length_3_cases: "length xs = 3 \<Longrightarrow> \<exists>a b c. xs = [a, b, c]"
  by (cases xs; simp; cases "tl xs"; simp; cases "tl (tl xs)"; auto)

text \<open>
  C4. \<open>get_triangles\<close> asserts that the longest edge is marked. When it is (three
  edges, the longest among them), the call returns 2 triangles plus one for each
  marked edge other than the longest: 2 when only the longest edge is marked, 3 with
  one more, 4 when all three are marked. When it is not, a build with assertions
  stops at the assertion.
\<close>

theorem get_triangles_count:
  assumes "length marked_edges = 3" and "longest_edge < 3"
  shows "(marked_edges ! longest_edge \<longrightarrow>
           (\<exists>tri_set. get_triangles debug marked_edges longest_edge = Inr tri_set
              \<and> length tri_set
                  = 2 + length (filter (\<lambda>e. e \<noteq> longest_edge \<and> marked_edges ! e) [0..<3])))
       \<and> (\<not> marked_edges ! longest_edge \<longrightarrow>
           get_triangles True marked_edges longest_edge = Inl AssertionFailed)"
proof -
  from assms(1) obtain a b c where m: "marked_edges = [a, b, c]"
    using length_3_cases by blast
  from assms(2) have le: "longest_edge = 0 \<or> longest_edge = 1 \<or> longest_edge = 2"
    by arith
  have up: "[0..<3] = [0, 1, 2]"
    by (simp add: upt_rec)
  from le show ?thesis
  proof (elim disjE)
    assume "longest_edge = 0"
    then show ?thesis
      by (simp add: m get_triangles_def size_t_wrap_def uint_wrap_def up)
  next
    assume "longest_edge = 1"
    then show ?thesis
      by (simp add: m get_triangles_def size_t_wrap_def uint_wrap_def up)
  next
    assume "longest_edge = 2"
    then show ?thesis
      by (simp add: m get_triangles_def size_t_wrap_def uint_wrap_def up)
  qed
qed

theorem get_triangles_count_witness:
  "length [False, True, True] = 3 \<and> (1::nat) < 3
   \<and> get_triangles False [False, True, True] 1
       = Inr [[4, 1, 5], [4, 5, 0], [4, 1, 2]]
   \<and> get_triangles True [True, False, True] 1 = Inl AssertionFailed"
  using get_triangles_count [of "[False, True, True]" 1 False]
    get_triangles_count [of "[True, False, True]" 1 False]
  by (simp add: get_triangles_def size_t_wrap_def uint_wrap_def)

text \<open>
  C10. For a topological dimension other than 2 and 3, \<open>get_simplices\<close> returns
  normally and leaves \<open>simplex_set\<close> as it was, whereas \<open>refine\<close> stops with a
  \<open>dolfin_error\<close> before anything else is done.
\<close>

theorem get_simplices_other_dim:
  assumes "tdim \<noteq> 2" and "tdim \<noteq> 3"
  shows "get_simplices debug simplex_set marked_edges longest_edge tdim = Inr simplex_set
       \<and> refine tdim body = Inl (DolfinError tdim)"
  using assms by (simp add: get_simplices_def refine_def)

theorem get_simplices_other_dim_witness:
  "(1::nat) \<noteq> 2 \<and> (1::nat) \<noteq> 3
   \<and> get_simplices True [[7, 8, 9]] [True] [] 1 = Inr [[7, 8, 9]]
   \<and> refine 1 () = Inl (DolfinError 1)"
  using get_simplices_other_dim [of 1 True "[[7, 8, 9]]" "[True]" "[]" "()"]
  by simp

lemma facet_pairs_shape:
  "t \<in> set (facet_pairs conn i j ps) \<Longrightarrow>
     \<exists>p q. t = [i, j, p, q] \<and> p \<in> set ps \<and> q \<in> set ps"
  by (induction ps) auto

lemma facet_pairs_increasing:
  "sorted_wrt (<) ps \<Longrightarrow> t \<in> set (facet_pairs conn i j ps) \<Longrightarrow>
     \<exists>p q. t = [i, j, p, q] \<and> p \<in> set ps \<and> q \<in> set ps \<and> p < q"
  by (induction ps) auto

lemma facet_pairs_distinct: "distinct ps \<Longrightarrow> distinct (facet_pairs conn i j ps)"
proof (induction ps)
  case Nil
  then show ?case by simp
next
  case (Cons p qs)
  have "distinct (map (\<lambda>q. [i, j, p, q]) (filter (\<lambda>q. conn_get conn p q) qs))"
    using Cons.prems by (simp add: distinct_map inj_on_def)
  moreover have "distinct (facet_pairs conn i j qs)"
    using Cons by simp
  moreover have "set (map (\<lambda>q. [i, j, p, q]) (filter (\<lambda>q. conn_get conn p q) qs))
      \<inter> set (facet_pairs conn i j qs) = {}"
    using Cons.prems by (auto dest: facet_pairs_shape)
  ultimately show ?case by simp
qed

lemma facet_set_sorted: "sorted_wrt (<) (facet_set conn i j)"
  unfolding facet_set_def by (rule sorted_wrt_filter) simp

lemma facet_set_range: "k \<in> set (facet_set conn i j) \<Longrightarrow> j < k \<and> k < 10"
  by (auto simp: facet_set_def)

lemma tets_ij_increasing:
  assumes "t \<in> set (tets_ij conn i j)"
  shows "\<exists>p q. t = [i, j, p, q] \<and> j < p \<and> p < q \<and> q < 10"
proof -
  from assms have "t \<in> set (facet_pairs conn i j (facet_set conn i j))"
    by (simp add: tets_ij_def split: if_splits)
  then obtain p q where "t = [i, j, p, q]" "p \<in> set (facet_set conn i j)"
    "q \<in> set (facet_set conn i j)" "p < q"
    using facet_pairs_increasing [OF facet_set_sorted] by blast
  then show ?thesis
    using facet_set_range by blast
qed

lemma tets_ij_distinct: "distinct (tets_ij conn i j)"
  using facet_set_sorted [of conn i j]
  by (simp add: tets_ij_def facet_pairs_distinct strict_sorted_iff)

lemma distinct_concat_map:
  assumes "distinct xs"
    and "\<And>x. x \<in> set xs \<Longrightarrow> distinct (f x)"
    and "\<And>x y. x \<in> set xs \<Longrightarrow> y \<in> set xs \<Longrightarrow> x \<noteq> y \<Longrightarrow> set (f x) \<inter> set (f y) = {}"
  shows "distinct (concat (map f xs))"
  using assms by (induction xs) fastforce+

lemma enumerate_tets_increasing:
  assumes "t \<in> set (enumerate_tets conn)"
  shows "\<exists>i j k l. t = [i, j, k, l] \<and> i < j \<and> j < k \<and> k < l \<and> l < 10"
proof -
  from assms have "\<exists>i j. i < j \<and> t \<in> set (tets_ij conn i j)"
    by (fastforce simp: enumerate_tets_def Suc_le_eq)
  then obtain i j where "i < j" and "t \<in> set (tets_ij conn i j)"
    by blast
  then show ?thesis
    using tets_ij_increasing by blast
qed

lemma enumerate_tets_distinct: "distinct (enumerate_tets conn)"
  unfolding enumerate_tets_def
proof (rule distinct_concat_map)
  show "distinct [0..<10]" by simp
next
  fix i :: nat
  show "distinct (concat (map (tets_ij conn i) [i + 1..<10]))"
  proof (rule distinct_concat_map)
    show "distinct [i + 1..<10]" by simp
  next
    fix j show "distinct (tets_ij conn i j)" by (rule tets_ij_distinct)
  next
    fix j j' :: nat
    assume "j \<noteq> j'"
    then show "set (tets_ij conn i j) \<inter> set (tets_ij conn i j') = {}"
      by (auto dest!: tets_ij_increasing)
  qed
next
  fix i i' :: nat
  assume "i \<noteq> i'"
  then show "set (concat (map (tets_ij conn i) [i + 1..<10]))
      \<inter> set (concat (map (tets_ij conn i') [i' + 1..<10])) = {}"
    by (auto dest!: tets_ij_increasing)
qed

lemma enumerate_tets_no_duplicate: "distinct (map set (enumerate_tets conn))"
proof -
  have "inj_on set (set (enumerate_tets conn))"
  proof (rule inj_onI)
    fix s t
    assume s: "s \<in> set (enumerate_tets conn)" and t: "t \<in> set (enumerate_tets conn)"
      and eq: "set s = set t"
    from s have "sorted_wrt (<) s"
      by (auto dest!: enumerate_tets_increasing)
    moreover from t have "sorted_wrt (<) t"
      by (auto dest!: enumerate_tets_increasing)
    ultimately show "s = t"
      using eq by (simp add: strict_sorted_equal)
  qed
  then show ?thesis
    by (simp add: distinct_map enumerate_tets_distinct)
qed

lemma edges_at_range: "e < 6 \<Longrightarrow> edges_at e j < 4"
proof -
  assume "e < 6"
  then have "e = 0 \<or> e = 1 \<or> e = 2 \<or> e = 3 \<or> e = 4 \<or> e = 5" by arith
  then show ?thesis
    by (auto simp: edges_at_def edges_def)
qed

lemma conn_set_in_range:
  "i < 10 \<Longrightarrow> j < 10 \<Longrightarrow> conn_set i j conn = Inr (conn[i * 10 + j := True])"
  by (simp add: conn_set_def)

lemma connect_facet_returns:
  assumes "length marked_edges = 6" and "length longest_edge = 4"
    and "\<And>f. f < 4 \<Longrightarrow> longest_edge ! f < 6" and "ei < 6"
  shows "\<exists>conn'. connect_facet marked_edges longest_edge ei j conn = Inr conn'"
proof -
  have f: "edges_at (5 - ei) k < 4" for k
    using assms(4) by (intro edges_at_range) arith
  have l: "longest_edge ! edges_at (5 - ei) k < 6" for k
    using f assms(3) by blast
  have w: "size_t_wrap (longest_edge ! edges_at (5 - ei) k + 4) < 10" for k
    using l [of k] by (simp add: size_t_wrap_def)
  have v: "edges_at (5 - ei) k < 10" for k
    using f [of k] by arith
  show ?thesis
    using assms(1,2,4) f w v
    by (simp add: connect_facet_def Let_def conn_set_in_range)
qed

lemma connect_edge_returns:
  assumes "length marked_edges = 6" and "length longest_edge = 4"
    and "\<And>f. f < 4 \<Longrightarrow> longest_edge ! f < 6" and "ei < 6"
  shows "\<exists>conn'. connect_edge marked_edges longest_edge ei conn = Inr conn'"
proof -
  have v: "edges_at ei k < 10" for k
    using edges_at_range [OF assms(4), of k] by arith
  obtain c1 where c1: "connect_facet marked_edges longest_edge ei 0
      (conn[edges_at ei 1 * 10 + (ei + 4) := True, edges_at ei 0 * 10 + (ei + 4) := True]) = Inr c1"
    using connect_facet_returns [OF assms] by blast
  obtain c2 where c2: "connect_facet marked_edges longest_edge ei 1 c1 = Inr c2"
    using connect_facet_returns [OF assms] by blast
  show ?thesis
    using assms(1,4) v c1 c2
    by (simp add: connect_edge_def Let_def conn_set_in_range)
qed

lemma connect_edges_returns:
  assumes "length marked_edges = 6" and "length longest_edge = 4"
    and "\<And>f. f < 4 \<Longrightarrow> longest_edge ! f < 6"
  shows "\<forall>ei\<in>set eis. ei < 6 \<Longrightarrow>
    \<exists>conn'. connect_edges marked_edges longest_edge eis conn = Inr conn'"
proof (induction eis arbitrary: conn)
  case Nil
  then show ?case by simp
next
  case (Cons ei eis)
  then obtain c where "connect_edge marked_edges longest_edge ei conn = Inr c"
    using connect_edge_returns [OF assms, of ei conn] by auto
  then show ?case
    using Cons by simp
qed

lemma valid_longest_edge_range:
  "valid_longest_edge longest_edge \<Longrightarrow> f < 4 \<Longrightarrow> longest_edge ! f < 6"
  by (simp add: valid_longest_edge_def list_all_iff edge_of_facet_def)

text \<open>
  C1. For every marking of the six edges and every assignment of a longest edge to
  each of the four facets that picks an edge of that facet, \<open>get_tetrahedra\<close> returns,
  every tetrahedron it emits is a strictly increasing 4-tuple of slots below 10, and
  no two emitted tetrahedra have the same set of slots.
\<close>

theorem get_tetrahedra_no_duplicate:
  assumes "length marked_edges = 6" and "valid_longest_edge longest_edge"
  shows "\<exists>tet_set. get_tetrahedra marked_edges longest_edge = Inr tet_set
    \<and> (\<forall>t\<in>set tet_set. \<exists>i j k l. t = [i, j, k, l] \<and> i < j \<and> j < k \<and> k < l \<and> l < 10)
    \<and> distinct (map set tet_set)"
proof -
  from assms(2) have len: "length longest_edge = 4"
    by (simp add: valid_longest_edge_def)
  obtain conn where "connect_edges marked_edges longest_edge [0..<6] conn_init = Inr conn"
    using connect_edges_returns [OF assms(1) len valid_longest_edge_range [OF assms(2)],
        of "[0..<6]" conn_init]
    by auto
  then have "get_tetrahedra marked_edges longest_edge = Inr (enumerate_tets conn)"
    by (simp add: get_tetrahedra_def)
  then show ?thesis
    using enumerate_tets_increasing [of _ conn] enumerate_tets_no_duplicate [of conn]
    by blast
qed

theorem get_tetrahedra_no_duplicate_witness:
  "length [True, False, False, False, False, False] = 6
   \<and> valid_longest_edge [0, 0, 1, 2]
   \<and> get_tetrahedra [True, False, False, False, False, False] [0, 0, 1, 2]
       = Inr [[0, 1, 2, 4], [0, 1, 3, 4]]
   \<and> distinct (map set [[0, 1, 2, 4], [0, 1, 3, 4 :: nat]])"
proof -
  have h1: "length [True, False, False, False, False, False] = 6"
    by simp
  have h2: "valid_longest_edge [0, 0, 1, 2]"
    by code_simp
  have v: "get_tetrahedra [True, False, False, False, False, False] [0, 0, 1, 2]
       = Inr [[0, 1, 2, 4], [0, 1, 3, 4]]"
    by code_simp
  from get_tetrahedra_no_duplicate [OF h1 h2] v
  have "distinct (map set [[0, 1, 2, 4], [0, 1, 3, 4 :: nat]])"
    by simp
  with h1 h2 v show ?thesis
    by simp
qed



lemma fold_err_invariant:
  assumes "I s"
    and "\<And>x s. x \<in> set xs \<Longrightarrow> I s \<Longrightarrow> \<exists>s'. f x s = Inr s' \<and> I s'"
  shows "\<exists>s'. fold_err f xs s = Inr s' \<and> I s'"
  using assms
proof (induction xs arbitrary: s)
  case Nil
  then show ?case by simp
next
  case (Cons x xs)
  from Cons.prems obtain s1 where s1: "f x s = Inr s1" "I s1"
    by (meson list.set_intros(1))
  from Cons.IH [OF s1(2)] Cons.prems(2) obtain s' where "fold_err f xs s1 = Inr s'" "I s'"
    by (meson list.set_intros(2))
  with s1 show ?case by simp
qed

lemma fold_err_pure:
  assumes "\<And>x s. x \<in> set xs \<Longrightarrow> f x s = Inr (g x s)"
  shows "fold_err f xs s = Inr (fold g xs s)"
  using assms by (induction xs arbitrary: s) simp_all

lemma is_marked_in_range: "e < length m \<Longrightarrow> is_marked m e = Inr (m ! e)"
  by (simp add: is_marked_def)

lemma any_marked_loop:
  assumes "\<forall>e\<in>set es. e < length m"
  shows "fold_err (\<lambda>e any_marked. bind_err (is_marked m e) (\<lambda>b. Inr (any_marked \<or> b))) es a
    = Inr (a \<or> list_ex (\<lambda>e. m ! e) es)"
  using assms by (induction es arbitrary: a) (simp_all add: is_marked_def)

lemma unmarked_mark:
  "e < length m \<Longrightarrow> \<not> m ! e \<Longrightarrow> Suc (unmarked (m[e := True])) = unmarked m"
  unfolding unmarked_def
  by (induction m arbitrary: e) (auto simp: nth_Cons split: nat.splits)

lemma unmarked_mono:
  assumes "length m' = length m" and "\<forall>e<length m. m ! e \<longrightarrow> m' ! e"
  shows "unmarked m' \<le> unmarked m"
proof -
  have "{i. i < length m' \<and> \<not> m' ! i} \<subseteq> {i. i < length m \<and> \<not> m ! i}"
    using assms by auto
  then have "card {i. i < length m' \<and> \<not> m' ! i} \<le> card {i. i < length m \<and> \<not> m ! i}"
    by (intro card_mono) simp_all
  then show ?thesis
    by (simp add: unmarked_def length_filter_conv_card)
qed

lemma unmarked_le_length: "unmarked m \<le> length m"
  by (simp add: unmarked_def)

lemma enforce_face_step:
  assumes wf: "edges_in_range mesh long_edge n"
    and f: "f < length (face_edges mesh)" and len: "length m = n"
  shows "\<exists>m' c'. enforce_face mesh long_edge f (m, c) = Inr (m', c')
    \<and> length m' = n \<and> (\<forall>e<n. m ! e \<longrightarrow> m' ! e)
    \<and> unmarked m' + c' = unmarked m + c \<and> c \<le> c'
    \<and> (c' \<noteq> c \<longrightarrow> (\<exists>e<n. \<not> m ! e \<and> m' ! e))
    \<and> (c' = c \<longrightarrow> m' = m
          \<and> (list_ex (\<lambda>e. m ! e) (face_edges mesh ! f) \<longrightarrow> m ! (long_edge ! f)))"
proof -
  from wf f have lf: "f < length long_edge" and le: "long_edge ! f < n"
    and es: "\<forall>e\<in>set (face_edges mesh ! f). e < length m"
    using len by (auto simp: edges_in_range_def list_all_iff)
  let ?any = "list_ex (\<lambda>e. m ! e) (face_edges mesh ! f)"
  show ?thesis
  proof (cases "m ! (long_edge ! f)")
    case True
    then show ?thesis
      using lf le len by (simp add: enforce_face_def is_marked_in_range)
  next
    case unm: False
    show ?thesis
    proof (cases ?any)
      case True
      have "enforce_face mesh long_edge f (m, c) = Inr (m[long_edge ! f := True], c + 1)"
        using lf le len unm True
        by (simp add: enforce_face_def is_marked_in_range any_marked_loop [OF es] mark_def)
      moreover have "unmarked (m[long_edge ! f := True]) + (c + 1) = unmarked m + c"
        using unmarked_mark [of "long_edge ! f" m] le len unm by simp
      moreover have "\<forall>e<n. m ! e \<longrightarrow> m[long_edge ! f := True] ! e"
        using le len by (auto simp: nth_list_update)
      moreover have "\<exists>e<n. \<not> m ! e \<and> m[long_edge ! f := True] ! e"
        using le len unm by (intro exI [of _ "long_edge ! f"]) simp
      ultimately show ?thesis
        using len by simp
    next
      case False
      then show ?thesis
        using lf le len unm
        by (simp add: enforce_face_def is_marked_in_range any_marked_loop [OF es])
    qed
  qed
qed

lemma enforce_faces_loop:
  assumes wf: "edges_in_range mesh long_edge n"
  shows "\<forall>f\<in>set fs. f < length (face_edges mesh) \<Longrightarrow> length m = n \<Longrightarrow>
    \<exists>m' c'. fold_err (enforce_face mesh long_edge) fs (m, c) = Inr (m', c')
    \<and> length m' = n \<and> (\<forall>e<n. m ! e \<longrightarrow> m' ! e)
    \<and> unmarked m' + c' = unmarked m + c \<and> c \<le> c'
    \<and> (c' \<noteq> c \<longrightarrow> (\<exists>e<n. \<not> m ! e \<and> m' ! e))
    \<and> (c' = c \<longrightarrow> m' = m
          \<and> (\<forall>f\<in>set fs. list_ex (\<lambda>e. m ! e) (face_edges mesh ! f) \<longrightarrow> m ! (long_edge ! f)))"
proof (induction fs arbitrary: m c)
  case Nil
  then show ?case by simp
next
  case (Cons f fs)
  from Cons.prems have f: "f < length (face_edges mesh)"
    and fs: "\<forall>f\<in>set fs. f < length (face_edges mesh)"
    by simp_all
  from enforce_face_step [OF wf f Cons.prems(2), of c]
  obtain m1 c1 where s1: "enforce_face mesh long_edge f (m, c) = Inr (m1, c1)"
    and l1: "length m1 = n" and mono1: "\<forall>e<n. m ! e \<longrightarrow> m1 ! e"
    and cnt1: "unmarked m1 + c1 = unmarked m + c" and c1: "c \<le> c1"
    and new1: "c1 \<noteq> c \<longrightarrow> (\<exists>e<n. \<not> m ! e \<and> m1 ! e)"
    and same1: "c1 = c \<longrightarrow> m1 = m
          \<and> (list_ex (\<lambda>e. m ! e) (face_edges mesh ! f) \<longrightarrow> m ! (long_edge ! f))"
    by blast
  from Cons.IH [OF fs l1, of c1]
  obtain m2 c2 where s2: "fold_err (enforce_face mesh long_edge) fs (m1, c1) = Inr (m2, c2)"
    and l2: "length m2 = n" and mono2: "\<forall>e<n. m1 ! e \<longrightarrow> m2 ! e"
    and cnt2: "unmarked m2 + c2 = unmarked m1 + c1" and c2: "c1 \<le> c2"
    and new2: "c2 \<noteq> c1 \<longrightarrow> (\<exists>e<n. \<not> m1 ! e \<and> m2 ! e)"
    and same2: "c2 = c1 \<longrightarrow> m2 = m1
          \<and> (\<forall>f\<in>set fs. list_ex (\<lambda>e. m1 ! e) (face_edges mesh ! f) \<longrightarrow> m1 ! (long_edge ! f))"
    by blast
  have run: "fold_err (enforce_face mesh long_edge) (f # fs) (m, c) = Inr (m2, c2)"
    using s1 s2 by simp
  have new: "c2 \<noteq> c \<longrightarrow> (\<exists>e<n. \<not> m ! e \<and> m2 ! e)"
  proof
    assume "c2 \<noteq> c"
    show "\<exists>e<n. \<not> m ! e \<and> m2 ! e"
    proof (cases "c1 = c")
      case True
      with same1 have "m1 = m" by simp
      with new2 \<open>c2 \<noteq> c\<close> True show ?thesis by simp
    next
      case False
      with new1 obtain e where "e < n" "\<not> m ! e" "m1 ! e" by blast
      with mono2 show ?thesis by blast
    qed
  qed
  have same: "c2 = c \<longrightarrow> m2 = m
          \<and> (\<forall>f\<in>set (f # fs). list_ex (\<lambda>e. m ! e) (face_edges mesh ! f) \<longrightarrow> m ! (long_edge ! f))"
  proof
    assume "c2 = c"
    with c1 c2 have "c1 = c" "c2 = c1" by simp_all
    with same1 same2 show "m2 = m
          \<and> (\<forall>f\<in>set (f # fs). list_ex (\<lambda>e. m ! e) (face_edges mesh ! f) \<longrightarrow> m ! (long_edge ! f))"
      by simp
  qed
  from run l2 mono1 mono2 cnt1 cnt2 c1 c2 new same show ?case
    by (intro exI [of _ m2] exI [of _ c2]) simp
qed

lemma rule_holds_iff:
  "rule_holds mesh long_edge m \<longleftrightarrow>
     (\<forall>f<length (face_edges mesh).
        (\<exists>e\<in>set (face_edges mesh ! f). m ! e) \<longrightarrow> m ! (long_edge ! f))"
  by (auto simp: rule_holds_def list_all_iff list_ex_iff)

lemma enforce_round_props:
  assumes wf: "edges_in_range mesh long_edge n" and sync: "only_adds sync n"
    and len: "length m = n"
  shows "\<exists>m' c. enforce_round sync mesh long_edge m = Inr (m', c)
    \<and> length m' = n \<and> (\<forall>e<n. m ! e \<longrightarrow> m' ! e)
    \<and> unmarked m' + c = unmarked (sync m) \<and> unmarked (sync m) \<le> unmarked m
    \<and> (c \<noteq> 0 \<longrightarrow> (\<exists>e<n. \<not> m ! e \<and> m' ! e))
    \<and> (c = 0 \<longrightarrow> m' = sync m \<and> rule_holds mesh long_edge m')"
proof -
  from sync len have ls: "length (sync m) = n" and ms: "\<forall>e<n. m ! e \<longrightarrow> sync m ! e"
    by (simp_all add: only_adds_def)
  have le: "unmarked (sync m) \<le> unmarked m"
    using ls ms len by (intro unmarked_mono) simp_all
  have fs: "\<forall>f\<in>set [0..<length (face_edges mesh)]. f < length (face_edges mesh)"
    by simp
  from enforce_faces_loop [OF wf fs ls, of 0]
  obtain m' c where run: "fold_err (enforce_face mesh long_edge)
        [0..<length (face_edges mesh)] (sync m, 0) = Inr (m', c)"
    and l: "length m' = n" and mono: "\<forall>e<n. sync m ! e \<longrightarrow> m' ! e"
    and cnt: "unmarked m' + c = unmarked (sync m) + 0"
    and new: "c \<noteq> 0 \<longrightarrow> (\<exists>e<n. \<not> sync m ! e \<and> m' ! e)"
    and same: "c = 0 \<longrightarrow> m' = sync m
          \<and> (\<forall>f\<in>set [0..<length (face_edges mesh)].
               list_ex (\<lambda>e. sync m ! e) (face_edges mesh ! f) \<longrightarrow> sync m ! (long_edge ! f))"
    by blast
  have "c = 0 \<longrightarrow> m' = sync m \<and> rule_holds mesh long_edge m'"
    using same by (auto simp: rule_holds_def list_all_iff)
  moreover have "c \<noteq> 0 \<longrightarrow> (\<exists>e<n. \<not> m ! e \<and> m' ! e)"
    using new ms by blast
  moreover have "\<forall>e<n. m ! e \<longrightarrow> m' ! e"
    using ms mono by blast
  moreover have "enforce_round sync mesh long_edge m = Inr (m', c)"
    using run by (simp add: enforce_round_def)
  moreover have "unmarked m' + c = unmarked (sync m)"
    using cnt by simp
  ultimately show ?thesis
    using l le by blast
qed

lemma busy_rounds_Suc:
  "busy_rounds others (Suc K) =
     (if others 0 \<noteq> 0 then 1 else 0) + busy_rounds (\<lambda>k. others (Suc k)) K"
proof -
  have "[0..<Suc K] = 0 # map Suc [0..<K]"
    by (simp add: upt_conv_Cons map_Suc_upt del: upt_Suc)
  then show ?thesis
    by (simp add: busy_rounds_def filter_map comp_def del: upt_Suc)
qed

lemma quiet_from_step:
  assumes "quiet_from others K"
  shows "quiet_from (\<lambda>k. others (Suc k)) (K - 1)
    \<and> busy_rounds (\<lambda>k. others (Suc k)) (K - 1) + (if others 0 \<noteq> 0 then 1 else 0)
        = busy_rounds others K"
proof (cases K)
  case 0
  with assms show ?thesis
    by (simp add: quiet_from_def busy_rounds_def)
next
  case (Suc K')
  with assms have "quiet_from (\<lambda>k. others (Suc k)) K'"
    by (simp add: quiet_from_def)
  with Suc show ?thesis
    by (simp add: busy_rounds_Suc)
qed

lemma enforce_rules_returns:
  assumes wf: "edges_in_range mesh long_edge n" and sync: "only_adds sync n"
  shows "length m = n \<Longrightarrow> quiet_from others K
    \<Longrightarrow> unmarked m + busy_rounds others K < rounds \<Longrightarrow>
    \<exists>m'. enforce_rules rounds sync others mesh long_edge m = Some (Inr m')
      \<and> length m' = n \<and> (\<forall>e<n. m ! e \<longrightarrow> m' ! e) \<and> rule_holds mesh long_edge m'"
proof (induction rounds arbitrary: m others K)
  case 0
  then show ?case by simp
next
  case (Suc rounds)
  from enforce_round_props [OF wf sync Suc.prems(1)]
  obtain m1 c where run: "enforce_round sync mesh long_edge m = Inr (m1, c)"
    and l: "length m1 = n" and mono: "\<forall>e<n. m ! e \<longrightarrow> m1 ! e"
    and cnt: "unmarked m1 + c = unmarked (sync m)" and le: "unmarked (sync m) \<le> unmarked m"
    and fin: "c = 0 \<longrightarrow> m1 = sync m \<and> rule_holds mesh long_edge m1"
    by blast
  show ?case
  proof (cases "c + others 0 = 0")
    case True
    then have c0: "c = 0"
      by simp
    with True run have "enforce_rules (Suc rounds) sync others mesh long_edge m = Some (Inr m1)"
      by (simp add: MPI_sum_def)
    with l mono fin c0 show ?thesis
      by blast
  next
    case False
    from quiet_from_step [OF Suc.prems(2)]
    have q: "quiet_from (\<lambda>k. others (Suc k)) (K - 1)"
      and b: "busy_rounds (\<lambda>k. others (Suc k)) (K - 1) + (if others 0 \<noteq> 0 then 1 else 0)
        = busy_rounds others K"
      by simp_all
    from False have "c \<noteq> 0 \<or> others 0 \<noteq> 0"
      by simp
    with cnt le b Suc.prems(3)
    have "unmarked m1 + busy_rounds (\<lambda>k. others (Suc k)) (K - 1) < rounds"
      by (cases "others 0 = 0") simp_all
    from Suc.IH [OF l q this]
    obtain m' where
      "enforce_rules rounds sync (\<lambda>k. others (Suc k)) mesh long_edge m1 = Some (Inr m')"
      "length m' = n" "\<forall>e<n. m1 ! e \<longrightarrow> m' ! e" "rule_holds mesh long_edge m'"
      by blast
    moreover from this(1) run False
    have "enforce_rules (Suc rounds) sync others mesh long_edge m = Some (Inr m')"
      by (cases "c = 0") (simp_all add: MPI_sum_def)
    ultimately show ?thesis
      using mono by blast
  qed
qed

text \<open>
  C2. On a mesh whose edge indices are all below the number \<open>n\<close> of edges, with a
  synchronisation that only adds marks and other processes that count updates in
  \<open>busy_rounds others K\<close> rounds and none from round \<open>K\<close> on, \<open>enforce_rules\<close> returns
  from every marker of the \<open>n\<close> edges when more than \<open>n + busy_rounds others K\<close> rounds
  are allowed (more than \<open>n\<close> when the process runs alone), and in the marker it leaves
  every face with a marked edge has its longest edge marked.
\<close>

theorem enforce_rules_postcondition:
  assumes "edges_in_range mesh long_edge n" and "only_adds sync n"
    and "length marked_edges = n" and "quiet_from others K"
    and "n + busy_rounds others K < rounds"
  shows "\<exists>marked_edges'.
      enforce_rules rounds sync others mesh long_edge marked_edges = Some (Inr marked_edges')
    \<and> (\<forall>f<length (face_edges mesh).
         (\<exists>e\<in>set (face_edges mesh ! f). marked_edges' ! e)
           \<longrightarrow> marked_edges' ! (long_edge ! f))"
proof -
  have "unmarked marked_edges + busy_rounds others K < rounds"
    using unmarked_le_length [of marked_edges] assms(3,5) by simp
  from enforce_rules_returns [OF assms(1,2,3,4) this] show ?thesis
    by (auto simp: rule_holds_iff)
qed

theorem enforce_rules_postcondition_witness:
  "edges_in_range two_triangles [3, 2] 5 \<and> only_adds (\<lambda>m. m) 5
   \<and> length [True, False, False, False, False] = 5 \<and> quiet_from (\<lambda>k. 0) 0
   \<and> 5 + busy_rounds (\<lambda>k. 0) 0 < 6
   \<and> enforce_rules 6 (\<lambda>m. m) (\<lambda>k. 0) two_triangles [3, 2]
       [True, False, False, False, False]
       = Some (Inr [True, False, True, True, False])
   \<and> rule_holds two_triangles [3, 2] [True, False, True, True, False]"
proof -
  have h1: "edges_in_range two_triangles [3, 2] 5"
    by (simp add: edges_in_range_def two_triangles_def)
  have h2: "only_adds (\<lambda>m. m) 5"
    by (simp add: only_adds_def)
  have h3: "length [True, False, False, False, False] = 5"
    by simp
  have h4: "quiet_from (\<lambda>k. 0) 0"
    by (simp add: quiet_from_def)
  have h5: "5 + busy_rounds (\<lambda>k. 0) 0 < 6"
    by (simp add: busy_rounds_def)
  have v: "enforce_rules 6 (\<lambda>m. m) (\<lambda>k. 0) two_triangles [3, 2]
       [True, False, False, False, False]
       = Some (Inr [True, False, True, True, False])"
    by code_simp
  from enforce_rules_postcondition [OF h1 h2 h3 h4 h5] v
  have "rule_holds two_triangles [3, 2] [True, False, True, True, False]"
    by (simp add: rule_holds_iff)
  with h1 h2 h3 h4 h5 v show ?thesis
    by blast
qed



lemma enforce_face_count:
  "enforce_face mesh long_edge f (m, c) = Inr (m', c') \<Longrightarrow> c \<le> c' \<and> (c' = c \<longrightarrow> m' = m)"
  by (auto simp: enforce_face_def bind_err_def split: sum.splits if_splits)

lemma enforce_faces_count:
  "fold_err (enforce_face mesh long_edge) fs (m, c) = Inr (m', c')
     \<Longrightarrow> c \<le> c' \<and> (c' = c \<longrightarrow> m' = m)"
proof (induction fs arbitrary: m c)
  case Nil
  then show ?case by simp
next
  case (Cons f fs)
  then obtain m1 c1 where s1: "enforce_face mesh long_edge f (m, c) = Inr (m1, c1)"
    and s2: "fold_err (enforce_face mesh long_edge) fs (m1, c1) = Inr (m', c')"
    by (cases "enforce_face mesh long_edge f (m, c)") auto
  from enforce_face_count [OF s1] Cons.IH [OF s2] show ?case
    by auto
qed

lemma enforce_rules_last_round:
  "enforce_rules rounds sync others mesh long_edge m = Some (Inr m')
     \<Longrightarrow> \<exists>m0. enforce_round sync mesh long_edge m0 = Inr (m', 0)"
proof (induction rounds arbitrary: m others)
  case 0
  then show ?case by simp
next
  case (Suc rounds)
  then show ?case
    by (auto simp: MPI_sum_def split: sum.splits if_splits)
qed

text \<open>
  C6. When \<open>enforce_rules\<close> has returned a marker, and synchronising twice is the same
  as synchronising once, a second call on that marker counts zero updates in its first
  round; when the other processes count none in that round either (each of them is in
  the same situation), the global sum is zero and the call returns the marker unchanged
  after that one round.
\<close>

theorem enforce_rules_idempotent:
  assumes "enforce_rules rounds sync others mesh long_edge marked_edges
             = Some (Inr marked_edges')"
    and "\<forall>m. sync (sync m) = sync m"
  shows "enforce_round sync mesh long_edge marked_edges' = Inr (marked_edges', 0)
    \<and> (others' 0 = 0 \<longrightarrow>
         MPI_sum (others' 0) 0 = 0
         \<and> enforce_rules (Suc k) sync others' mesh long_edge marked_edges'
             = Some (Inr marked_edges'))"
proof -
  from enforce_rules_last_round [OF assms(1)]
  obtain m0 where last: "enforce_round sync mesh long_edge m0 = Inr (marked_edges', 0)"
    by blast
  then have "marked_edges' = sync m0"
    using enforce_faces_count [of mesh long_edge _ "sync m0" 0 marked_edges' 0]
    by (simp add: enforce_round_def)
  with assms(2) have "sync marked_edges' = sync m0"
    by simp
  with last have "enforce_round sync mesh long_edge marked_edges' = Inr (marked_edges', 0)"
    by (simp add: enforce_round_def)
  then show ?thesis
    by (simp add: MPI_sum_def)
qed

theorem enforce_rules_idempotent_witness:
  "enforce_rules 4 (\<lambda>m. m) (\<lambda>k. if k = 2 then 1 else 0) two_triangles [3, 2]
       [True, False, False, False, False]
       = Some (Inr [True, False, True, True, False])
   \<and> (\<forall>m :: bool list. (\<lambda>m. m) ((\<lambda>m. m) m) = (\<lambda>m. m) m)
   \<and> enforce_round (\<lambda>m. m) two_triangles [3, 2] [True, False, True, True, False]
       = Inr ([True, False, True, True, False], 0)
   \<and> (\<lambda>k::nat. 0::nat) 0 = 0
   \<and> enforce_rules (Suc 0) (\<lambda>m. m) (\<lambda>k. 0) two_triangles [3, 2]
       [True, False, True, True, False]
       = Some (Inr [True, False, True, True, False])"
proof -
  have h1: "enforce_rules 4 (\<lambda>m. m) (\<lambda>k. if k = 2 then 1 else 0) two_triangles [3, 2]
       [True, False, False, False, False]
       = Some (Inr [True, False, True, True, False])"
    by code_simp
  have h2: "\<forall>m :: bool list. (\<lambda>m. m) ((\<lambda>m. m) m) = (\<lambda>m. m) m"
    by simp
  from enforce_rules_idempotent [OF h1 h2, of "\<lambda>k. 0" 0] h1 h2 show ?thesis
    by simp
qed

lemma fold_err_append:
  "fold_err f (xs @ ys) s = bind_err (fold_err f xs s) (fold_err f ys)"
  by (induction xs arbitrary: s) (simp_all add: bind_err_def split: sum.splits)
















text \<open>
  The statement of the specification fails without the condition on the positions: the
  two evaluations below are of the same triangle, with the same vertices in the same
  order, the same edges, lengths and global indices, and only the order of the edges
  differs. The edges 0 and 2 are the longest; the vertex opposite edge 2 has the global
  index 2 and the vertex opposite edge 0 the global index 0, so that the specification
  names edge 2 in both. \<open>face_long_edge\<close> stores edge 2 in one evaluation and edge 0 in
  the other.
\<close>

theorem face_long_edge_order_counterexample:
  "face_vertices one_triangle_reordered = face_vertices one_triangle
   \<and> set (face_edges one_triangle_reordered ! 0) = set (face_edges one_triangle ! 0)
   \<and> edge_length one_triangle_reordered = edge_length one_triangle
   \<and> vertex_global_index one_triangle_reordered = vertex_global_index one_triangle
   \<and> proper_faces one_triangle \<and> proper_faces one_triangle_reordered
   \<and> face_long_edge one_triangle = Inr [2]
   \<and> face_long_edge one_triangle_reordered = Inr [0]
   \<and> spec_long_edge one_triangle [[0, 2], [0, 1], [1, 2]] 0 2
   \<and> spec_long_edge one_triangle_reordered [[0, 2], [0, 1], [1, 2]] 0 2
   \<and> \<not> spec_long_edge one_triangle_reordered [[0, 2], [0, 1], [1, 2]] 0 0"
proof -
  have "face_vertices one_triangle_reordered = face_vertices one_triangle"
    and "edge_length one_triangle_reordered = edge_length one_triangle"
    and "vertex_global_index one_triangle_reordered = vertex_global_index one_triangle"
    by (simp_all add: one_triangle_reordered_def)
  moreover have "set (face_edges one_triangle_reordered ! 0) = set (face_edges one_triangle ! 0)"
    by (auto simp: one_triangle_reordered_def one_triangle_def)
  moreover have "proper_faces one_triangle" and "proper_faces one_triangle_reordered"
    by code_simp+
  moreover have "face_long_edge one_triangle = Inr [2]"
    and "face_long_edge one_triangle_reordered = Inr [0]"
    by code_simp+
  moreover have "spec_long_edge one_triangle [[0, 2], [0, 1], [1, 2]] 0 2"
    and "spec_long_edge one_triangle_reordered [[0, 2], [0, 1], [1, 2]] 0 2"
    and "\<not> spec_long_edge one_triangle_reordered [[0, 2], [0, 1], [1, 2]] 0 0"
    by code_simp+
  ultimately show ?thesis
    by (intro conjI)
qed

lemma vertex_match_subset:
  "vertex_match new_mesh vset f \<longleftrightarrow> facet_global_vertices new_mesh f \<subseteq> set vset"
  by (auto simp: vertex_match_def facet_global_vertices_def list_all_iff)

lemma match_loop:
  "k \<le> length facet_sets \<Longrightarrow>
   \<exists>r. fold_err (\<lambda>i npf. if vertex_match new_mesh (facet_sets ! i) f
                          then Inr (npf[f := pfacets ! i]) else Inr npf) [0..<k] npf = Inr r
     \<and> ((\<forall>i<k. \<not> vertex_match new_mesh (facet_sets ! i) f) \<and> r = npf
        \<or> (\<exists>i<k. vertex_match new_mesh (facet_sets ! i) f
             \<and> (\<forall>j<k. i < j \<longrightarrow> \<not> vertex_match new_mesh (facet_sets ! j) f)
             \<and> r = npf[f := pfacets ! i]))"
proof (induction k)
  case 0
  then show ?case by simp
next
  case (Suc k)
  let ?step = "\<lambda>i npf. if vertex_match new_mesh (facet_sets ! i) f
                          then Inr (npf[f := pfacets ! i]) else Inr npf"
  let ?m = "\<lambda>i. vertex_match new_mesh (facet_sets ! i) f"
  from Suc obtain r where run: "fold_err ?step [0..<k] npf = Inr r"
    and r: "(\<forall>i<k. \<not> ?m i) \<and> r = npf
        \<or> (\<exists>i<k. ?m i \<and> (\<forall>j<k. i < j \<longrightarrow> \<not> ?m j) \<and> r = npf[f := pfacets ! i])"
    by auto
  show ?case
  proof (cases "?m k")
    case True
    have "r[f := pfacets ! k] = npf[f := pfacets ! k]"
      using r by auto
    with run True have "fold_err ?step [0..<Suc k] npf = Inr (npf[f := pfacets ! k])"
      by (simp add: fold_err_append)
    moreover have "\<forall>j<Suc k. k < j \<longrightarrow> \<not> ?m j"
      by simp
    ultimately show ?thesis
      using True by blast
  next
    case False
    with run have run': "fold_err ?step [0..<Suc k] npf = Inr r"
      by (simp add: fold_err_append)
    from r show ?thesis
    proof
      assume "(\<forall>i<k. \<not> ?m i) \<and> r = npf"
      with False have "(\<forall>i<Suc k. \<not> ?m i) \<and> r = npf"
        by (auto simp: less_Suc_eq)
      with run' show ?thesis by blast
    next
      assume "\<exists>i<k. ?m i \<and> (\<forall>j<k. i < j \<longrightarrow> \<not> ?m j) \<and> r = npf[f := pfacets ! i]"
      then obtain i where i: "i < k" "?m i" "\<forall>j<k. i < j \<longrightarrow> \<not> ?m j"
        "r = npf[f := pfacets ! i]"
        by blast
      with False have "\<forall>j<Suc k. i < j \<longrightarrow> \<not> ?m j"
        by (auto simp: less_Suc_eq)
      with i run' show ?thesis
        by (metis less_Suc_eq)
    qed
  qed
qed


lemma no_parent_numeral: "no_parent = 18446744073709551615"
  by (simp add: no_parent_def)



lemma set_set_insert [simp]: "set (set_insert x xs) = insert x (set xs)"
  by (auto simp: set_insert_def set_insort_key)

lemma tag_child_facet_sound:
  assumes J: "tags_sound mesh new_mesh nvm npf"
    and c: "c < length (cell_facets new_mesh)" and f: "f \<in> set (cell_facets new_mesh ! c)"
    and fN: "f < length (facet_vertices new_mesh)"
  shows "\<exists>npf'. tag_child_facet new_mesh
        (map (parent_facet_set mesh nvm) (cell_facets mesh ! (parent_cell new_mesh ! c)))
        (cell_facets mesh ! (parent_cell new_mesh ! c)) f npf = Inr npf'
      \<and> tags_sound mesh new_mesh nvm npf'"
proof -
  let ?pf = "cell_facets mesh ! (parent_cell new_mesh ! c)"
  let ?sets = "map (parent_facet_set mesh nvm) ?pf"
  from J fN have len: "f < length npf"
    by (simp add: tags_sound_def)
  show ?thesis
  proof (cases "npf ! f = no_parent")
    case False
    with len J show ?thesis
      by (simp add: tag_child_facet_def)
  next
    case True
    let ?step = "\<lambda>i npf. if vertex_match new_mesh (?sets ! i) f
                          then Inr (npf[f := ?pf ! i]) else Inr npf"
    from match_loop [of "length ?sets" ?sets new_mesh f ?pf npf]
    obtain r where run: "fold_err ?step [0..<length ?sets] npf = Inr r"
      and r: "r = npf \<or> (\<exists>i<length ?sets. vertex_match new_mesh (?sets ! i) f
             \<and> r = npf[f := ?pf ! i])"
      by auto
    have tag: "tag_child_facet new_mesh ?sets ?pf f npf = Inr r"
      using len True run by (simp add: tag_child_facet_def)
    from r have "tags_sound mesh new_mesh nvm r"
    proof
      assume "r = npf"
      with J show ?thesis by simp
    next
      assume "\<exists>i<length ?sets. vertex_match new_mesh (?sets ! i) f \<and> r = npf[f := ?pf ! i]"
      then obtain i where i: "i < length ?pf" and m: "vertex_match new_mesh (?sets ! i) f"
        and req: "r = npf[f := ?pf ! i]"
        by auto
      from i m have "facet_global_vertices new_mesh f
          \<subseteq> set (parent_facet_set mesh nvm (?pf ! i))"
        by (simp add: vertex_match_subset)
      with c f i have new: "tagged_by_parent mesh new_mesh nvm f (?pf ! i)"
        unfolding tagged_by_parent_def by blast
      have "r ! k = no_parent \<or> tagged_by_parent mesh new_mesh nvm k (r ! k)"
        if "k < length npf" for k
      proof (cases "k = f")
        case True
        with new req len show ?thesis by simp
      next
        case False
        with J that req show ?thesis
          by (simp add: tags_sound_def)
      qed
      with J req show ?thesis
        by (simp add: tags_sound_def)
    qed
    with tag show ?thesis by blast
  qed
qed

lemma tag_child_sound:
  assumes J: "tags_sound mesh new_mesh nvm npf"
    and r: "children_in_range mesh new_mesh"
    and c: "c < length (cell_facets new_mesh)"
  shows "\<exists>npf'. fold_err (tag_child_facet new_mesh
        (map (parent_facet_set mesh nvm) (cell_facets mesh ! (parent_cell new_mesh ! c)))
        (cell_facets mesh ! (parent_cell new_mesh ! c)))
      (cell_facets new_mesh ! c) npf = Inr npf'
      \<and> tags_sound mesh new_mesh nvm npf'"
proof (rule fold_err_invariant [where I = "tags_sound mesh new_mesh nvm", OF J])
  fix f s
  assume f: "f \<in> set (cell_facets new_mesh ! c)" and s: "tags_sound mesh new_mesh nvm s"
  from r c f have "f < length (facet_vertices new_mesh)"
    by (auto simp: children_in_range_def list_all_iff)
  from tag_child_facet_sound [OF s c f this]
  show "\<exists>s'. tag_child_facet new_mesh
        (map (parent_facet_set mesh nvm) (cell_facets mesh ! (parent_cell new_mesh ! c)))
        (cell_facets mesh ! (parent_cell new_mesh ! c)) f s = Inr s'
      \<and> tags_sound mesh new_mesh nvm s'" .
qed

lemma tag_children_sound:
  assumes J: "tags_sound mesh new_mesh nvm npf"
    and r: "children_in_range mesh new_mesh"
    and p: "pcell < length rmap"
    and ch: "\<forall>c\<in>set (rmap ! pcell). c < length (cell_facets new_mesh)
                \<and> parent_cell new_mesh ! c = pcell"
  shows "\<exists>npf'. tag_children mesh new_mesh nvm rmap pcell npf = Inr npf'
      \<and> tags_sound mesh new_mesh nvm npf'"
proof -
  have "\<exists>npf'. fold_err (\<lambda>child_index.
             fold_err (tag_child_facet new_mesh
               (map (parent_facet_set mesh nvm) (cell_facets mesh ! pcell))
               (cell_facets mesh ! pcell))
               (cell_facets new_mesh ! child_index))
           (rmap ! pcell) npf = Inr npf' \<and> tags_sound mesh new_mesh nvm npf'"
  proof (rule fold_err_invariant [where I = "tags_sound mesh new_mesh nvm", OF J])
    fix c s
    assume c: "c \<in> set (rmap ! pcell)" and s: "tags_sound mesh new_mesh nvm s"
    with ch have c1: "c < length (cell_facets new_mesh)" and c2: "parent_cell new_mesh ! c = pcell"
      by auto
    from tag_child_sound [OF s r c1] c2
    show "\<exists>s'. fold_err (tag_child_facet new_mesh
               (map (parent_facet_set mesh nvm) (cell_facets mesh ! pcell))
               (cell_facets mesh ! pcell))
               (cell_facets new_mesh ! c) s = Inr s' \<and> tags_sound mesh new_mesh nvm s'"
      by simp
  qed
  with p show ?thesis
    by (simp add: tag_children_def)
qed

lemma reverse_cell_map_sound:
  assumes r: "children_in_range mesh new_mesh"
  shows "\<exists>rmap. reverse_cell_map mesh new_mesh = Inr rmap
    \<and> length rmap = length (cell_facets mesh)
    \<and> (\<forall>p<length rmap. \<forall>c\<in>set (rmap ! p).
          c < length (cell_facets new_mesh) \<and> parent_cell new_mesh ! c = p)"
  unfolding reverse_cell_map_def
proof (rule fold_err_invariant [where I = "\<lambda>rmap. length rmap = length (cell_facets mesh)
    \<and> (\<forall>p<length rmap. \<forall>c\<in>set (rmap ! p).
          c < length (cell_facets new_mesh) \<and> parent_cell new_mesh ! c = p)"])
  show "length (replicate (length (cell_facets mesh)) ([] :: nat list)) = length (cell_facets mesh)
    \<and> (\<forall>p<length (replicate (length (cell_facets mesh)) ([] :: nat list)).
         \<forall>c\<in>set (replicate (length (cell_facets mesh)) [] ! p).
          c < length (cell_facets new_mesh) \<and> parent_cell new_mesh ! c = p)"
    by simp
next
  fix c rmap
  assume c: "c \<in> set [0..<length (cell_facets new_mesh)]"
    and I: "length rmap = length (cell_facets mesh)
    \<and> (\<forall>p<length rmap. \<forall>c\<in>set (rmap ! p).
          c < length (cell_facets new_mesh) \<and> parent_cell new_mesh ! c = p)"
  from c r have c1: "c < length (parent_cell new_mesh)"
    and c2: "parent_cell new_mesh ! c < length rmap" and c3: "c < length (cell_facets new_mesh)"
    using I by (auto simp: children_in_range_def list_all_iff)
  let ?p = "parent_cell new_mesh ! c"
  let ?r = "rmap[?p := set_insert c (rmap ! ?p)]"
  have "length ?r = length (cell_facets mesh)
    \<and> (\<forall>p<length ?r. \<forall>c\<in>set (?r ! p).
          c < length (cell_facets new_mesh) \<and> parent_cell new_mesh ! c = p)"
    using I c2 c3 by (auto simp: nth_list_update)
  moreover have "bind_err (index_at (parent_cell new_mesh) c) (\<lambda>p.
         bind_err (index_at rmap p) (\<lambda>children.
         Inr (rmap[p := set_insert c children]))) = Inr ?r"
    using c1 c2 by simp
  ultimately show "\<exists>s'. bind_err (index_at (parent_cell new_mesh) c) (\<lambda>p.
         bind_err (index_at rmap p) (\<lambda>children.
         Inr (rmap[p := set_insert c children]))) = Inr s'
      \<and> (length s' = length (cell_facets mesh)
    \<and> (\<forall>p<length s'. \<forall>c\<in>set (s' ! p).
          c < length (cell_facets new_mesh) \<and> parent_cell new_mesh ! c = p))"
    by blast
qed

lemma set_parent_facet_markers_sound:
  assumes r: "children_in_range mesh new_mesh"
  shows "\<exists>npf. set_parent_facet_markers mesh new_mesh nvm = Inr npf
    \<and> tags_sound mesh new_mesh nvm npf"
proof -
  from reverse_cell_map_sound [OF r] obtain rmap
    where rm: "reverse_cell_map mesh new_mesh = Inr rmap"
      and len: "length rmap = length (cell_facets mesh)"
      and ch: "\<forall>p<length rmap. \<forall>c\<in>set (rmap ! p).
          c < length (cell_facets new_mesh) \<and> parent_cell new_mesh ! c = p"
    by blast
  have init: "tags_sound mesh new_mesh nvm (replicate (length (facet_vertices new_mesh)) no_parent)"
    by (simp add: tags_sound_def)
  have "\<exists>npf. fold_err (tag_children mesh new_mesh nvm rmap)
       [0..<length (cell_facets mesh)]
       (replicate (length (facet_vertices new_mesh)) no_parent) = Inr npf
     \<and> tags_sound mesh new_mesh nvm npf"
  proof (rule fold_err_invariant [where I = "tags_sound mesh new_mesh nvm", OF init])
    fix p s
    assume p: "p \<in> set [0..<length (cell_facets mesh)]" and s: "tags_sound mesh new_mesh nvm s"
    from p len have pl: "p < length rmap" by simp
    with ch have "\<forall>c\<in>set (rmap ! p). c < length (cell_facets new_mesh)
                \<and> parent_cell new_mesh ! c = p"
      by blast
    from tag_children_sound [OF s r pl this]
    show "\<exists>s'. tag_children mesh new_mesh nvm rmap p s = Inr s'
        \<and> tags_sound mesh new_mesh nvm s'" .
  qed
  with rm show ?thesis
    by (simp add: set_parent_facet_markers_def)
qed

text \<open>
  C8. When every cell of the new mesh has a parent among the cells of \<open>mesh\<close>,
  \<open>set_parent_facet_markers\<close> returns an array with one entry for each facet of the new
  mesh. An entry is \<open>no_parent\<close> or the index, in the parent cell's list of facets, of a
  facet of the parent of a cell the facet belongs to; and a facet whose global vertex
  set lies in no vertex set of such a parent cell keeps \<open>no_parent\<close>.
\<close>

theorem set_parent_facet_markers_tags:
  assumes "children_in_range mesh new_mesh"
  shows "\<exists>new_parent_facet.
      set_parent_facet_markers mesh new_mesh new_vertex_map = Inr new_parent_facet
    \<and> length new_parent_facet = length (facet_vertices new_mesh)
    \<and> (\<forall>k<length (facet_vertices new_mesh).
         new_parent_facet ! k = no_parent
         \<or> (\<exists>c<length (cell_facets new_mesh). k \<in> set (cell_facets new_mesh ! c)
              \<and> new_parent_facet ! k \<in> set (cell_facets mesh ! (parent_cell new_mesh ! c))))
    \<and> (\<forall>k<length (facet_vertices new_mesh).
         (\<forall>c<length (cell_facets new_mesh). k \<in> set (cell_facets new_mesh ! c) \<longrightarrow>
            (\<forall>pf\<in>set (cell_facets mesh ! (parent_cell new_mesh ! c)).
               \<not> facet_global_vertices new_mesh k
                   \<subseteq> set (parent_facet_set mesh new_vertex_map pf)))
         \<longrightarrow> new_parent_facet ! k = no_parent)"
proof -
  from set_parent_facet_markers_sound [OF assms] obtain npf
    where run: "set_parent_facet_markers mesh new_mesh new_vertex_map = Inr npf"
      and s: "tags_sound mesh new_mesh new_vertex_map npf"
    by blast
  from s have len: "length npf = length (facet_vertices new_mesh)"
    and tags: "\<forall>k<length (facet_vertices new_mesh). npf ! k = no_parent
            \<or> tagged_by_parent mesh new_mesh new_vertex_map k (npf ! k)"
    by (simp_all add: tags_sound_def)
  have a: "\<forall>k<length (facet_vertices new_mesh).
         npf ! k = no_parent
         \<or> (\<exists>c<length (cell_facets new_mesh). k \<in> set (cell_facets new_mesh ! c)
              \<and> npf ! k \<in> set (cell_facets mesh ! (parent_cell new_mesh ! c)))"
    using tags unfolding tagged_by_parent_def by (metis nth_mem)
  have b: "\<forall>k<length (facet_vertices new_mesh).
         (\<forall>c<length (cell_facets new_mesh). k \<in> set (cell_facets new_mesh ! c) \<longrightarrow>
            (\<forall>pf\<in>set (cell_facets mesh ! (parent_cell new_mesh ! c)).
               \<not> facet_global_vertices new_mesh k
                   \<subseteq> set (parent_facet_set mesh new_vertex_map pf)))
         \<longrightarrow> npf ! k = no_parent"
    using tags unfolding tagged_by_parent_def by (metis nth_mem)
  from run len a b show ?thesis
    by blast
qed

theorem set_parent_facet_markers_tags_witness:
  "children_in_range tetrahedron bisected
   \<and> get_tetrahedra [True, False, False, False, False, False] [0, 0, 1, 2]
       = Inr [[0, 1, 2, 4], [0, 1, 3, 4]]
   \<and> set_parent_facet_markers tetrahedron bisected [0 \<mapsto> 4]
       = Inr [no_parent, 0, 1, 3, 0, 1, 2]
   \<and> (\<exists>new_parent_facet.
      set_parent_facet_markers tetrahedron bisected [0 \<mapsto> 4] = Inr new_parent_facet
    \<and> length new_parent_facet = length (facet_vertices bisected)
    \<and> (\<forall>k<length (facet_vertices bisected).
         new_parent_facet ! k = no_parent
         \<or> (\<exists>c<length (cell_facets bisected). k \<in> set (cell_facets bisected ! c)
              \<and> new_parent_facet ! k \<in> set (cell_facets tetrahedron ! (parent_cell bisected ! c))))
    \<and> (\<forall>k<length (facet_vertices bisected).
         (\<forall>c<length (cell_facets bisected). k \<in> set (cell_facets bisected ! c) \<longrightarrow>
            (\<forall>pf\<in>set (cell_facets tetrahedron ! (parent_cell bisected ! c)).
               \<not> facet_global_vertices bisected k
                   \<subseteq> set (parent_facet_set tetrahedron [0 \<mapsto> 4] pf)))
         \<longrightarrow> new_parent_facet ! k = no_parent))"
proof -
  have h: "children_in_range tetrahedron bisected"
    by (simp add: children_in_range_def tetrahedron_def bisected_def)
  have t: "get_tetrahedra [True, False, False, False, False, False] [0, 0, 1, 2]
       = Inr [[0, 1, 2, 4], [0, 1, 3, 4]]"
    by code_simp
  have v: "set_parent_facet_markers tetrahedron bisected [0 \<mapsto> 4]
       = Inr [no_parent, 0, 1, 3, 0, 1, 2]"
    by (simp add: set_parent_facet_markers_def reverse_cell_map_def tag_children_def
        tag_child_facet_def vertex_match_def parent_facet_set_def set_insert_def
        tetrahedron_def bisected_def upt_rec no_parent_numeral)
  from set_parent_facet_markers_tags [OF h, of "[0 \<mapsto> 4]"] h t v show ?thesis
    by blast
qed





section \<open>Properties of the redistribution of mesh values\<close>

lemma fold_err_concat:
  "fold_err (\<lambda>xs. fold_err f xs) xss s = fold_err f (concat xss) s"
proof (induction xss arbitrary: s)
  case Nil
  then show ?case by simp
next
  case (Cons xs xss)
  then show ?case
    by (cases "fold_err f xs s") (simp_all add: fold_err_append)
qed

lemma fold_err_map: "fold_err f (map g xs) = fold_err (\<lambda>x. f (g x)) xs"
proof
  fix s
  show "fold_err f (map g xs) s = fold_err (\<lambda>x. f (g x)) xs s"
    by (induction xs arbitrary: s) (simp_all add: bind_err_def split: sum.splits)
qed

lemma fold_err_cong:
  "(\<And>x s. x \<in> set xs \<Longrightarrow> f x s = g x s) \<Longrightarrow> fold_err f xs s = fold_err g xs s"
  by (induction xs arbitrary: s) (simp_all add: bind_err_def split: sum.splits)

lemma pack_pushes:
  "pack num_processes ldata entity_hosts
     = fold_err push_to (all_pushes ldata entity_hosts)
         (replicate num_processes [], replicate num_processes [])"
proof -
  have "fold_err (\<lambda>entity_host bufs.
         case map_of_ldata ldata (fst entity_host) of
           None \<Rightarrow> Inr bufs
         | Some its \<Rightarrow>
             fold_err (\<lambda>it.
                 fold_err (\<lambda>process_data.
                     push_to (fst process_data, snd process_data,
                              snd (fst (ldata ! it)), snd (ldata ! it)))
                   (snd entity_host))
               its bufs) hs s
    = fold_err push_to (all_pushes ldata hs) s" for hs s
  proof (induction hs arbitrary: s)
    case Nil
    then show ?case by (simp add: all_pushes_def)
  next
    case (Cons h hs)
    have split: "all_pushes ldata (h # hs) = all_pushes ldata [h] @ all_pushes ldata hs"
      by (simp add: all_pushes_def)
    have one: "(case map_of_ldata ldata (fst h) of
           None \<Rightarrow> Inr s
         | Some its \<Rightarrow>
             fold_err (\<lambda>it.
                 fold_err (\<lambda>process_data.
                     push_to (fst process_data, snd process_data,
                              snd (fst (ldata ! it)), snd (ldata ! it)))
                   (snd h))
               its s) = fold_err push_to (all_pushes ldata [h]) s"
    proof (cases "map_of_ldata ldata (fst h)")
      case None
      then show ?thesis by (simp add: all_pushes_def)
    next
      case (Some its)
      have "fold_err (\<lambda>it.
                 fold_err (\<lambda>process_data.
                     push_to (fst process_data, snd process_data,
                              snd (fst (ldata ! it)), snd (ldata ! it)))
                   (snd h)) its s
          = fold_err (\<lambda>xs. fold_err push_to xs)
              (map (\<lambda>it. map (\<lambda>process_data. (fst process_data, snd process_data,
                                       snd (fst (ldata ! it)), snd (ldata ! it))) (snd h)) its) s"
        by (simp add: fold_err_map)
      then show ?thesis
        using Some by (simp add: all_pushes_def fold_err_concat)
    qed
    show ?case
      unfolding split fold_err_append
      using Cons.IH one by (simp add: bind_err_def split: sum.splits)
  qed
  then show ?thesis
    by (simp add: pack_def)
qed

lemma triples_for_Cons:
  "triples_for p (q # qs) = (if fst q = p then snd q # triples_for p qs else triples_for p qs)"
  by (simp add: triples_for_def)

lemma index_buffer_Cons: "index_buffer (t # ts) = fst t # fst (snd t) # index_buffer ts"
  by (simp add: index_buffer_def)

lemma value_buffer_Cons: "value_buffer (t # ts) = snd (snd t) # value_buffer ts"
  by (simp add: value_buffer_def)

lemma push_loop:
  "length s0 = n \<Longrightarrow> length s1 = n \<Longrightarrow> \<forall>q\<in>set qs. fst q < n \<Longrightarrow>
   fold_err push_to qs (s0, s1)
     = Inr (map (\<lambda>p. s0 ! p @ index_buffer (triples_for p qs)) [0..<n],
            map (\<lambda>p. s1 ! p @ value_buffer (triples_for p qs)) [0..<n])"
proof (induction qs arbitrary: s0 s1)
  case Nil
  from Nil have "map ((!) s0) [0..<n] = s0" and "map ((!) s1) [0..<n] = s1"
    using map_nth [of s0] map_nth [of s1] by simp_all
  then show ?case
    by (simp add: triples_for_def index_buffer_def value_buffer_def)
next
  case (Cons q qs)
  obtain proc c e v where q: "q = (proc, c, e, v)"
    by (cases q) auto
  from Cons.prems have proc: "proc < n"
    by (simp add: q)
  let ?s0 = "s0[proc := s0 ! proc @ [c, e]]"
  let ?s1 = "s1[proc := s1 ! proc @ [v]]"
  have step: "push_to q (s0, s1) = Inr (?s0, ?s1)"
    using Cons.prems proc by (simp add: push_to_def q)
  have rest: "fold_err push_to qs (?s0, ?s1)
     = Inr (map (\<lambda>p. ?s0 ! p @ index_buffer (triples_for p qs)) [0..<n],
            map (\<lambda>p. ?s1 ! p @ value_buffer (triples_for p qs)) [0..<n])"
    using Cons.prems by (intro Cons.IH) simp_all
  have i: "?s0 ! p @ index_buffer (triples_for p qs)
      = s0 ! p @ index_buffer (triples_for p (q # qs))" if "p < n" for p
    using that Cons.prems(1)
    by (simp add: q triples_for_Cons index_buffer_Cons nth_list_update)
  have v: "?s1 ! p @ value_buffer (triples_for p qs)
      = s1 ! p @ value_buffer (triples_for p (q # qs))" if "p < n" for p
    using that Cons.prems(2)
    by (simp add: q triples_for_Cons value_buffer_Cons nth_list_update)
  have "map (\<lambda>p. ?s0 ! p @ index_buffer (triples_for p qs)) [0..<n]
      = map (\<lambda>p. s0 ! p @ index_buffer (triples_for p (q # qs))) [0..<n]"
    by (rule map_cong) (simp_all add: i)
  moreover have "map (\<lambda>p. ?s1 ! p @ value_buffer (triples_for p qs)) [0..<n]
      = map (\<lambda>p. s1 ! p @ value_buffer (triples_for p (q # qs))) [0..<n]"
    by (rule map_cong) (simp_all add: v)
  ultimately show ?case
    using step rest by simp
qed

lemma pack_buffers:
  assumes "\<forall>q\<in>set (all_pushes ldata entity_hosts). fst q < n"
  shows "pack n ldata entity_hosts
    = Inr (map (\<lambda>p. index_buffer (triples_for p (all_pushes ldata entity_hosts))) [0..<n],
           map (\<lambda>p. value_buffer (triples_for p (all_pushes ldata entity_hosts))) [0..<n])"
  using push_loop [of "replicate n []" n "replicate n []" "all_pushes ldata entity_hosts", OF _ _ assms]
  by (simp add: pack_pushes cong: map_cong)

lemma receive_from_pairs:
  assumes "length received0 = 2 * length received1"
    and "debug \<longrightarrow> (\<forall>i<length received1. received0 ! (2 * i) < num_cells)"
  shows "receive_from debug num_cells received0 received1 markers
    = Inr (fold (\<lambda>i. set_value (received0 ! (2 * i)) (received0 ! (2 * i + 1)) (received1 ! i))
             [0..<length received1] markers)"
proof -
  have "fold_err (\<lambda>i markers.
            bind_err (index_at received0 (2 * i)) (\<lambda>local_cell_entity.
            bind_err (index_at received0 (2 * i + 1)) (\<lambda>local_entity_index.
            let v = received1 ! i
            in if debug \<and> \<not> local_cell_entity < num_cells then Inl AssertionFailed
               else Inr (set_value local_cell_entity local_entity_index v markers))))
          [0..<length received1] markers
    = Inr (fold (\<lambda>i. set_value (received0 ! (2 * i)) (received0 ! (2 * i + 1)) (received1 ! i))
             [0..<length received1] markers)"
    using assms by (intro fold_err_pure) auto
  with assms(1) show ?thesis
    by (simp add: receive_from_def)
qed

lemma index_buffer_nth:
  "i < length ts \<Longrightarrow> index_buffer ts ! (2 * i) = fst (ts ! i)
     \<and> index_buffer ts ! Suc (2 * i) = fst (snd (ts ! i))"
proof (induction ts arbitrary: i)
  case Nil
  then show ?case by simp
next
  case (Cons t ts)
  show ?case
  proof (cases i)
    case 0
    then show ?thesis by (simp add: index_buffer_Cons)
  next
    case (Suc j)
    with Cons.prems have "j < length ts" by simp
    from Cons.IH [OF this] Suc show ?thesis
      by (simp add: index_buffer_Cons)
  qed
qed

lemma length_index_buffer: "length (index_buffer ts) = 2 * length ts"
  by (induction ts) (simp_all add: index_buffer_def)

lemma fold_nth: "fold (\<lambda>i. f (xs ! i)) [0..<length xs] = fold f xs"
proof -
  have "fold f xs = fold f (map (\<lambda>i. xs ! i) [0..<length xs])"
    by (simp add: map_nth)
  also have "\<dots> = fold (\<lambda>i. f (xs ! i)) [0..<length xs]"
    by (simp add: fold_map comp_def)
  finally show ?thesis by simp
qed

lemma receive_from_triples:
  assumes "debug \<longrightarrow> (\<forall>t\<in>set ts. fst t < num_cells)"
  shows "receive_from debug num_cells (index_buffer ts) (value_buffer ts) markers
    = Inr (fold apply_triple ts markers)"
proof -
  have len: "length (index_buffer ts) = 2 * length (value_buffer ts)"
    by (simp add: length_index_buffer value_buffer_def)
  have cells: "debug \<longrightarrow> (\<forall>i<length (value_buffer ts). index_buffer ts ! (2 * i) < num_cells)"
    using assms by (simp add: value_buffer_def index_buffer_nth)
  have "fold (\<lambda>i. set_value (index_buffer ts ! (2 * i)) (index_buffer ts ! (2 * i + 1))
                   (value_buffer ts ! i)) [0..<length (value_buffer ts)] markers
      = fold (\<lambda>i. apply_triple (ts ! i)) [0..<length ts] markers"
  proof (rule fold_cong)
    fix i
    assume "i \<in> set [0..<length (value_buffer ts)]"
    then have "i < length ts"
      by (simp add: value_buffer_def)
    then show "set_value (index_buffer ts ! (2 * i)) (index_buffer ts ! (2 * i + 1))
                   (value_buffer ts ! i) = apply_triple (ts ! i)"
      by (simp add: value_buffer_def index_buffer_nth apply_triple_def)
  qed (simp_all add: value_buffer_def)
  also have "\<dots> = fold apply_triple ts markers"
    by (simp add: fold_nth)
  finally show ?thesis
    using receive_from_pairs [OF len cells, of markers] by simp
qed

lemma global_lookup:
  "(map_of_global_entity_indices gei g = None \<longleftrightarrow> g \<notin> set gei)
   \<and> (\<forall>i. map_of_global_entity_indices gei g = Some i \<longrightarrow> i < length gei \<and> gei ! i = g)"
proof -
  define M where "M k = fold (\<lambda>i m. m(gei ! i \<mapsto> i)) [0..<k] Map.empty" for k
  have M0: "M 0 = Map.empty"
    by (simp add: M_def)
  have step: "M (Suc k) = (M k)(gei ! k \<mapsto> k)" for k
    by (simp add: M_def)
  have some: "M k g = Some i \<Longrightarrow> i < k \<and> gei ! i = g" for k i
  proof (induction k)
    case 0
    then show ?case by (simp add: M0)
  next
    case (Suc k)
    show ?case
    proof (cases "gei ! k = g")
      case True
      with Suc.prems have "i = k" by (simp add: step)
      with True show ?thesis by simp
    next
      case False
      with Suc.prems have "M k g = Some i"
        by (simp add: step)
      from Suc.IH [OF this] show ?thesis by simp
    qed
  qed
  have none: "k \<le> length gei \<Longrightarrow> M k g = None \<longleftrightarrow> g \<notin> set (take k gei)" for k
  proof (induction k)
    case 0
    then show ?case by (simp add: M0)
  next
    case (Suc k)
    from Suc.prems have t: "set (take (Suc k) gei) = insert (gei ! k) (set (take k gei))"
      by (simp add: take_Suc_conv_app_nth)
    from Suc have IH: "M k g = None \<longleftrightarrow> g \<notin> set (take k gei)"
      by simp
    show ?case
    proof (cases "gei ! k = g")
      case True
      then show ?thesis unfolding t by (simp add: step)
    next
      case False
      then have "g \<noteq> gei ! k" by blast
      with IH False show ?thesis unfolding t by (simp add: step)
    qed
  qed
  have "map_of_global_entity_indices gei = M (length gei)"
    by (simp add: map_of_global_entity_indices_def M_def)
  with some [of "length gei"] none [of "length gei"] show ?thesis
    by simp
qed

lemma apply_local_fold:
  "fold (apply_local_step gei) ldata (m, off)
     = (fold apply_triple (local_triples gei ldata) m, off @ off_process_of gei ldata)"
proof (induction ldata arbitrary: m off)
  case Nil
  then show ?case by (simp add: local_triples_def off_process_of_def)
next
  case (Cons entry ldata)
  show ?case
  proof (cases "map_of_global_entity_indices gei (fst (fst entry))")
    case None
    with global_lookup [of gei "fst (fst entry)"] have "fst (fst entry) \<notin> set gei"
      by simp
    with None Cons show ?thesis
      by (simp add: apply_local_step_def local_triples_def off_process_of_def)
  next
    case (Some i)
    with global_lookup [of gei "fst (fst entry)"] have "fst (fst entry) \<in> set gei"
      by auto
    with Some Cons show ?thesis
      by (simp add: apply_local_step_def local_triples_def off_process_of_def apply_triple_def)
  qed
qed

lemma map_of_ldata_positions:
  "(\<exists>its. map_of_ldata ldata g = Some its \<and> it \<in> set its)
     \<longleftrightarrow> it < length ldata \<and> fst (fst (ldata ! it)) = g"
proof -
  define M where "M k = fold (\<lambda>i m. let g = fst (fst (ldata ! i))
                  in m(g \<mapsto> set_insert i (case m g of None \<Rightarrow> [] | Some s \<Rightarrow> s)))
       [0..<k] Map.empty" for k
  define S where "S k = (case M k g of None \<Rightarrow> {} | Some s \<Rightarrow> set s)" for k
  have M0: "M 0 = Map.empty"
    by (simp add: M_def)
  have step: "M (Suc k) = (M k)(fst (fst (ldata ! k)) \<mapsto>
      set_insert k (case M k (fst (fst (ldata ! k))) of None \<Rightarrow> [] | Some s \<Rightarrow> s))" for k
    by (simp add: M_def Let_def)
  have S0: "S 0 = {}"
    by (simp add: S_def M0)
  have Sstep: "S (Suc k) = (if fst (fst (ldata ! k)) = g then insert k (S k) else S k)" for k
  proof (cases "fst (fst (ldata ! k)) = g")
    case True
    then show ?thesis
      by (cases "M k g") (auto simp: S_def step set_insert_def set_insort_key)
  next
    case False
    then have "M (Suc k) g = M k g"
      by (simp add: step)
    with False show ?thesis
      by (simp add: S_def)
  qed
  have "S k = {i. i < k \<and> fst (fst (ldata ! i)) = g}" for k
  proof (induction k)
    case 0
    then show ?case by (simp add: S0)
  next
    case (Suc k)
    then show ?case
      unfolding Sstep by (auto simp: less_Suc_eq)
  qed
  then have "S (length ldata) = {i. i < length ldata \<and> fst (fst (ldata ! i)) = g}" .
  moreover have "M (length ldata) = map_of_ldata ldata"
    by (simp add: map_of_ldata_def M_def)
  ultimately have "(case map_of_ldata ldata g of None \<Rightarrow> {} | Some s \<Rightarrow> set s)
      = {i. i < length ldata \<and> fst (fst (ldata ! i)) = g}"
    by (simp add: S_def)
  then show ?thesis
    by (cases "map_of_ldata ldata g") auto
qed

lemma pushes_of_host:
  "q \<in> set (case map_of_ldata ldata g of
           None \<Rightarrow> []
         | Some its \<Rightarrow>
             concat (map (\<lambda>it.
                 map (\<lambda>process_data. (fst process_data, snd process_data,
                                       snd (fst (ldata ! it)), snd (ldata ! it)))
                   pds)
               its))
   \<longleftrightarrow> (\<exists>pd\<in>set pds. \<exists>it. (\<exists>its. map_of_ldata ldata g = Some its \<and> it \<in> set its)
          \<and> q = (fst pd, snd pd, snd (fst (ldata ! it)), snd (ldata ! it)))"
proof (cases "map_of_ldata ldata g")
  case None
  then show ?thesis by simp
next
  case (Some its)
  then show ?thesis by (simp add: image_iff) blast
qed

lemma all_pushes_member:
  "q \<in> set (all_pushes ldata entity_hosts) \<longleftrightarrow>
     (\<exists>h\<in>set entity_hosts. \<exists>pd\<in>set (snd h). \<exists>it<length ldata.
        fst (fst (ldata ! it)) = fst h
      \<and> q = (fst pd, snd pd, snd (fst (ldata ! it)), snd (ldata ! it)))"
proof -
  have "q \<in> set (all_pushes ldata entity_hosts) \<longleftrightarrow>
     (\<exists>h\<in>set entity_hosts. q \<in> set (case map_of_ldata ldata (fst h) of
           None \<Rightarrow> []
         | Some its \<Rightarrow>
             concat (map (\<lambda>it.
                 map (\<lambda>process_data. (fst process_data, snd process_data,
                                       snd (fst (ldata ! it)), snd (ldata ! it)))
                   (snd h))
               its)))"
    by (simp add: all_pushes_def)
  then show ?thesis
    unfolding pushes_of_host map_of_ldata_positions by blast
qed

lemma local_triples_lookup:
  assumes "t \<in> set (local_triples gei ldata)"
  shows "\<exists>entry\<in>set ldata. fst t < length gei \<and> gei ! fst t = fst (fst entry)
    \<and> snd t = (snd (fst entry), snd entry)"
proof -
  from assms obtain entry where e: "entry \<in> set ldata" "fst (fst entry) \<in> set gei"
    and t: "t = (the (map_of_global_entity_indices gei (fst (fst entry))),
                    snd (fst entry), snd entry)"
    by (auto simp: local_triples_def)
  from e(2) global_lookup [of gei "fst (fst entry)"]
  obtain i where "map_of_global_entity_indices gei (fst (fst entry)) = Some i"
    "i < length gei" "gei ! i = fst (fst entry)"
    by auto
  with e(1) t show ?thesis
    by (intro bexI [of _ entry]) simp_all
qed

lemma receive_sources:
  assumes "num_processes \<le> length received_data0" and "num_processes \<le> length received_data1"
    and "\<forall>p<num_processes. length (received_data0 ! p) = 2 * length (received_data1 ! p)"
    and "debug \<longrightarrow> (\<forall>p<num_processes. \<forall>i<length (received_data1 ! p).
           received_data0 ! p ! (2 * i) < num_cells)"
  shows "receive debug num_cells num_processes received_data0 received_data1 markers
    = Inr (fold (\<lambda>p. fold (\<lambda>i. set_value (received_data0 ! p ! (2 * i))
                                   (received_data0 ! p ! (2 * i + 1)) (received_data1 ! p ! i))
                        [0..<length (received_data1 ! p)])
             [0..<num_processes] markers)"
  unfolding receive_def
proof (rule fold_err_pure)
  fix p and s :: "'a markers"
  assume "p \<in> set [0..<num_processes]"
  then have p: "p < num_processes"
    by simp
  with assms(3) have len: "length (received_data0 ! p) = 2 * length (received_data1 ! p)"
    by simp
  from p assms(4)
  have cells: "debug \<longrightarrow> (\<forall>i<length (received_data1 ! p). received_data0 ! p ! (2 * i) < num_cells)"
    by simp
  from p assms(1,2) receive_from_pairs [OF len cells, of s]
  show "bind_err (index_at received_data1 p) (\<lambda>received1.
         bind_err (index_at received_data0 p) (\<lambda>received0.
         receive_from debug num_cells received0 received1 s))
      = Inr (fold (\<lambda>i. set_value (received_data0 ! p ! (2 * i))
                                   (received_data0 ! p ! (2 * i + 1)) (received_data1 ! p ! i))
                        [0..<length (received_data1 ! p)] s)"
    by simp
qed

lemma fold_over_concat: "fold f (concat xss) s = fold (fold f) xss s"
  by (induction xss arbitrary: s) simp_all

lemma receive_triples:
  assumes "debug \<longrightarrow> (\<forall>ts\<in>set tss. \<forall>t\<in>set ts. fst t < num_cells)"
  shows "receive debug num_cells (length tss) (map index_buffer tss) (map value_buffer tss) markers
    = Inr (fold apply_triple (concat tss) markers)"
proof -
  have "receive debug num_cells (length tss) (map index_buffer tss) (map value_buffer tss) markers
    = Inr (fold (\<lambda>p. fold apply_triple (tss ! p)) [0..<length tss] markers)"
    unfolding receive_def
  proof (rule fold_err_pure)
    fix p and s :: "'a markers"
    assume "p \<in> set [0..<length tss]"
    then have p: "p < length tss"
      by simp
    with assms nth_mem [OF p] have "debug \<longrightarrow> (\<forall>t\<in>set (tss ! p). fst t < num_cells)"
      by blast
    from receive_from_triples [OF this, of s] p
    show "bind_err (index_at (map value_buffer tss) p) (\<lambda>received1.
         bind_err (index_at (map index_buffer tss) p) (\<lambda>received0.
         receive_from debug num_cells received0 received1 s))
      = Inr (fold apply_triple (tss ! p) s)"
      by simp
  qed
  also have "fold (\<lambda>p. fold apply_triple (tss ! p)) [0..<length tss] markers
      = fold (fold apply_triple) tss markers"
    by (simp add: fold_nth)
  also have "\<dots> = fold apply_triple (concat tss) markers"
    by (simp add: fold_over_concat)
  finally show ?thesis .
qed

lemma triples_for_member:
  "t \<in> set (triples_for p qs) \<longleftrightarrow> (p, t) \<in> set qs"
  by (force simp: triples_for_def)

lemma packed_position:
  assumes "(p, t) \<in> set qs"
  shows "\<exists>i<length (triples_for p qs).
      index_buffer (triples_for p qs) ! (2 * i) = fst t
    \<and> index_buffer (triples_for p qs) ! (2 * i + 1) = fst (snd t)
    \<and> value_buffer (triples_for p qs) ! i = snd (snd t)"
proof -
  from assms have "t \<in> set (triples_for p qs)"
    by (simp add: triples_for_member)
  then obtain i where i: "i < length (triples_for p qs)" "triples_for p qs ! i = t"
    by (auto simp: in_set_conv_nth)
  with index_buffer_nth [OF i(1)] show ?thesis
    by (intro exI [of _ i]) (simp add: value_buffer_def)
qed

lemma off_process_member:
  "g \<in> set (off_process_of gei ldata)
     \<longleftrightarrow> (\<exists>it<length ldata. fst (fst (ldata ! it)) = g \<and> g \<notin> set gei)"
proof -
  have "g \<in> set (off_process_of gei ldata)
      \<longleftrightarrow> (\<exists>entry\<in>set ldata. fst (fst entry) = g \<and> g \<notin> set gei)"
    by (auto simp: off_process_of_def)
  also have "\<dots> \<longleftrightarrow> (\<exists>it<length ldata. fst (fst (ldata ! it)) = g \<and> g \<notin> set gei)"
    by (metis in_set_conv_nth)
  finally show ?thesis .
qed

text \<open>
  C9. In \<open>build_mesh_value_collection\<close>, the first loop stores the value of every tuple
  whose global cell index is among the global indices of the local cells, at the local
  cell that the lookup gives, and hands the global cell index of every other tuple to
  \<open>locate\<close>. When the destination processes exist, \<open>pack\<close> fills for each process an
  index buffer and a value buffer that hold one list of triples in one order: for every
  remaining tuple and every host that \<open>locate\<close> returns for its cell there is a position
  \<open>i\<close> at which the value buffer of the host's process holds the value of the tuple and
  the index buffer holds its pair at \<open>2i\<close> and \<open>2i + 1\<close>, and the buffers hold nothing
  else (a tuple for whose cell \<open>locate\<close> returns no host is sent nowhere). On receipt
  the sources are visited in the order of their ranks, and the \<open>i\<close>-th value of the
  buffer of each source is stored at the pair of the entries \<open>2i\<close> and \<open>2i + 1\<close> of the
  index buffer of that source; so buffers packed from lists of triples store exactly
  these triples, source after source and in the order of each buffer.
\<close>

theorem build_mesh_value_collection_pairing:
  fixes ldata :: "((nat \<times> nat) \<times> 'v) list"
  assumes "list_all (\<lambda>q. fst q < num_processes)
             (all_pushes ldata (locate (off_process_of gei ldata)))"
  shows "apply_local gei ldata
        = (fold apply_triple (local_triples gei ldata) Map.empty, off_process_of gei ldata)
    \<and> (\<forall>t\<in>set (local_triples gei ldata). \<exists>entry\<in>set ldata.
          fst t < length gei \<and> gei ! fst t = fst (fst entry)
        \<and> snd t = (snd (fst entry), snd entry))
    \<and> (\<forall>it<length ldata. fst (fst (ldata ! it)) \<notin> set gei \<longrightarrow>
          fst (fst (ldata ! it)) \<in> set (off_process_of gei ldata))
    \<and> pack num_processes ldata (locate (off_process_of gei ldata))
        = Inr (map (\<lambda>p. index_buffer (triples_for p
                       (all_pushes ldata (locate (off_process_of gei ldata))))) [0..<num_processes],
               map (\<lambda>p. value_buffer (triples_for p
                       (all_pushes ldata (locate (off_process_of gei ldata))))) [0..<num_processes])
    \<and> (\<forall>q. q \<in> set (all_pushes ldata (locate (off_process_of gei ldata))) \<longleftrightarrow>
          (\<exists>h\<in>set (locate (off_process_of gei ldata)). \<exists>pd\<in>set (snd h). \<exists>it<length ldata.
             fst (fst (ldata ! it)) = fst h
           \<and> q = (fst pd, snd pd, snd (fst (ldata ! it)), snd (ldata ! it))))
    \<and> (\<forall>it<length ldata. \<forall>h\<in>set (locate (off_process_of gei ldata)). \<forall>pd\<in>set (snd h).
          fst (fst (ldata ! it)) = fst h \<longrightarrow>
          (\<exists>i<length (triples_for (fst pd)
                        (all_pushes ldata (locate (off_process_of gei ldata)))).
              index_buffer (triples_for (fst pd)
                 (all_pushes ldata (locate (off_process_of gei ldata)))) ! (2 * i) = snd pd
            \<and> index_buffer (triples_for (fst pd)
                 (all_pushes ldata (locate (off_process_of gei ldata)))) ! (2 * i + 1)
                = snd (fst (ldata ! it))
            \<and> value_buffer (triples_for (fst pd)
                 (all_pushes ldata (locate (off_process_of gei ldata)))) ! i
                = snd (ldata ! it)))
    \<and> (\<forall>received0 received1 (markers :: 'v markers).
          length received0 = 2 * length received1 \<longrightarrow>
          (debug \<longrightarrow> (\<forall>i<length received1. received0 ! (2 * i) < num_cells)) \<longrightarrow>
          receive_from debug num_cells received0 received1 markers
            = Inr (fold (\<lambda>i. set_value (received0 ! (2 * i)) (received0 ! (2 * i + 1))
                              (received1 ! i)) [0..<length received1] markers))
    \<and> (\<forall>ts (markers :: 'v markers).
          (debug \<longrightarrow> (\<forall>t\<in>set ts. fst t < num_cells)) \<longrightarrow>
          receive_from debug num_cells (index_buffer ts) (value_buffer ts) markers
            = Inr (fold apply_triple ts markers))
    \<and> (\<forall>received_data0 received_data1 (markers :: 'v markers).
          num_processes \<le> length received_data0 \<longrightarrow>
          num_processes \<le> length received_data1 \<longrightarrow>
          (\<forall>p<num_processes. length (received_data0 ! p) = 2 * length (received_data1 ! p)) \<longrightarrow>
          (debug \<longrightarrow> (\<forall>p<num_processes. \<forall>i<length (received_data1 ! p).
                        received_data0 ! p ! (2 * i) < num_cells)) \<longrightarrow>
          receive debug num_cells num_processes received_data0 received_data1 markers
            = Inr (fold (\<lambda>p. fold (\<lambda>i. set_value (received_data0 ! p ! (2 * i))
                                         (received_data0 ! p ! (2 * i + 1))
                                         (received_data1 ! p ! i))
                              [0..<length (received_data1 ! p)])
                     [0..<num_processes] markers))
    \<and> (\<forall>tss (markers :: 'v markers).
          (debug \<longrightarrow> (\<forall>ts\<in>set tss. \<forall>t\<in>set ts. fst t < num_cells)) \<longrightarrow>
          receive debug num_cells (length tss) (map index_buffer tss) (map value_buffer tss)
              markers
            = Inr (fold apply_triple (concat tss) markers))
    \<and> build_mesh_value_collection debug True num_cells num_processes gei locate exchange ldata
        = (case exchange
             (map (\<lambda>p. index_buffer (triples_for p
                       (all_pushes ldata (locate (off_process_of gei ldata))))) [0..<num_processes],
              map (\<lambda>p. value_buffer (triples_for p
                       (all_pushes ldata (locate (off_process_of gei ldata))))) [0..<num_processes])
           of (received_data0, received_data1) \<Rightarrow>
             receive debug num_cells num_processes received_data0 received_data1
               (fold apply_triple (local_triples gei ldata) Map.empty))"
proof -
  let ?hosts = "locate (off_process_of gei ldata)"
  have local: "apply_local gei ldata
        = (fold apply_triple (local_triples gei ldata) Map.empty, off_process_of gei ldata)"
    by (simp add: apply_local_def apply_local_fold)
  have lookup: "\<forall>t\<in>set (local_triples gei ldata). \<exists>entry\<in>set ldata.
          fst t < length gei \<and> gei ! fst t = fst (fst entry)
        \<and> snd t = (snd (fst entry), snd entry)"
    using local_triples_lookup by blast
  have located: "\<forall>it<length ldata. fst (fst (ldata ! it)) \<notin> set gei \<longrightarrow>
          fst (fst (ldata ! it)) \<in> set (off_process_of gei ldata)"
    unfolding off_process_member by blast
  from assms have procs: "\<forall>q\<in>set (all_pushes ldata ?hosts). fst q < num_processes"
    by (simp add: list_all_iff)
  have packed: "pack num_processes ldata ?hosts
        = Inr (map (\<lambda>p. index_buffer (triples_for p (all_pushes ldata ?hosts))) [0..<num_processes],
               map (\<lambda>p. value_buffer (triples_for p (all_pushes ldata ?hosts))) [0..<num_processes])"
    by (rule pack_buffers [OF procs])
  have members: "\<forall>q. q \<in> set (all_pushes ldata ?hosts) \<longleftrightarrow>
          (\<exists>h\<in>set ?hosts. \<exists>pd\<in>set (snd h). \<exists>it<length ldata.
             fst (fst (ldata ! it)) = fst h
           \<and> q = (fst pd, snd pd, snd (fst (ldata ! it)), snd (ldata ! it)))"
    using all_pushes_member by blast
  have position: "\<forall>it<length ldata. \<forall>h\<in>set ?hosts. \<forall>pd\<in>set (snd h).
          fst (fst (ldata ! it)) = fst h \<longrightarrow>
          (\<exists>i<length (triples_for (fst pd) (all_pushes ldata ?hosts)).
              index_buffer (triples_for (fst pd) (all_pushes ldata ?hosts)) ! (2 * i) = snd pd
            \<and> index_buffer (triples_for (fst pd) (all_pushes ldata ?hosts)) ! (2 * i + 1)
                = snd (fst (ldata ! it))
            \<and> value_buffer (triples_for (fst pd) (all_pushes ldata ?hosts)) ! i
                = snd (ldata ! it))"
  proof (intro allI ballI impI)
    fix it h pd
    assume "it < length ldata" "h \<in> set ?hosts" "pd \<in> set (snd h)"
      "fst (fst (ldata ! it)) = fst h"
    then have "(fst pd, snd pd, snd (fst (ldata ! it)), snd (ldata ! it))
        \<in> set (all_pushes ldata ?hosts)"
      unfolding all_pushes_member by blast
    from packed_position [OF this]
    show "\<exists>i<length (triples_for (fst pd) (all_pushes ldata ?hosts)).
              index_buffer (triples_for (fst pd) (all_pushes ldata ?hosts)) ! (2 * i) = snd pd
            \<and> index_buffer (triples_for (fst pd) (all_pushes ldata ?hosts)) ! (2 * i + 1)
                = snd (fst (ldata ! it))
            \<and> value_buffer (triples_for (fst pd) (all_pushes ldata ?hosts)) ! i
                = snd (ldata ! it)"
      by simp
  qed
  have pairs: "\<forall>received0 received1 (markers :: 'v markers).
          length received0 = 2 * length received1 \<longrightarrow>
          (debug \<longrightarrow> (\<forall>i<length received1. received0 ! (2 * i) < num_cells)) \<longrightarrow>
          receive_from debug num_cells received0 received1 markers
            = Inr (fold (\<lambda>i. set_value (received0 ! (2 * i)) (received0 ! (2 * i + 1))
                              (received1 ! i)) [0..<length received1] markers)"
    using receive_from_pairs by blast
  have triples: "\<forall>ts (markers :: 'v markers).
          (debug \<longrightarrow> (\<forall>t\<in>set ts. fst t < num_cells)) \<longrightarrow>
          receive_from debug num_cells (index_buffer ts) (value_buffer ts) markers
            = Inr (fold apply_triple ts markers)"
    using receive_from_triples by blast
  have sources: "\<forall>received_data0 received_data1 (markers :: 'v markers).
          num_processes \<le> length received_data0 \<longrightarrow>
          num_processes \<le> length received_data1 \<longrightarrow>
          (\<forall>p<num_processes. length (received_data0 ! p) = 2 * length (received_data1 ! p)) \<longrightarrow>
          (debug \<longrightarrow> (\<forall>p<num_processes. \<forall>i<length (received_data1 ! p).
                        received_data0 ! p ! (2 * i) < num_cells)) \<longrightarrow>
          receive debug num_cells num_processes received_data0 received_data1 markers
            = Inr (fold (\<lambda>p. fold (\<lambda>i. set_value (received_data0 ! p ! (2 * i))
                                         (received_data0 ! p ! (2 * i + 1))
                                         (received_data1 ! p ! i))
                              [0..<length (received_data1 ! p)])
                     [0..<num_processes] markers)"
    using receive_sources by blast
  have lists: "\<forall>tss (markers :: 'v markers).
          (debug \<longrightarrow> (\<forall>ts\<in>set tss. \<forall>t\<in>set ts. fst t < num_cells)) \<longrightarrow>
          receive debug num_cells (length tss) (map index_buffer tss) (map value_buffer tss)
              markers
            = Inr (fold apply_triple (concat tss) markers)"
    using receive_triples by blast
  have whole: "build_mesh_value_collection debug True num_cells num_processes gei locate
        exchange ldata
        = (case exchange
             (map (\<lambda>p. index_buffer (triples_for p (all_pushes ldata ?hosts))) [0..<num_processes],
              map (\<lambda>p. value_buffer (triples_for p (all_pushes ldata ?hosts))) [0..<num_processes])
           of (received_data0, received_data1) \<Rightarrow>
             receive debug num_cells num_processes received_data0 received_data1
               (fold apply_triple (local_triples gei ldata) Map.empty))"
    by (simp add: build_mesh_value_collection_def local packed)
  from local lookup located packed members position pairs triples sources lists whole
  show ?thesis
    by (intro conjI)
qed

theorem build_mesh_value_collection_pairing_witness:
  "list_all (\<lambda>q. fst q < (2::nat))
     (all_pushes [((10, 0), 7), ((12, 1), 8), ((11, 2), 9 :: nat)]
        ((\<lambda>off. [(12, [(1, 0)])]) (off_process_of [10, 11] [((10, 0), 7), ((12, 1), 8), ((11, 2), 9 :: nat)])))
   \<and> apply_local [10, 11] [((10, 0), 7), ((12, 1), 8), ((11, 2), 9 :: nat)]
       = (fold apply_triple [(0, 0, 7), (1, 2, 9)] Map.empty, [12])
   \<and> pack 2 [((10, 0), 7), ((12, 1), 8), ((11, 2), 9 :: nat)] [(12, [(1, 0)])]
       = Inr ([[], [0, 1]], [[], [8]])
   \<and> receive True 2 2 [[1, 2], [0, 1, 1, 2]] [[4], [5, 6 :: nat]] Map.empty
       = Inr (fold apply_triple [(1, 2, 4), (0, 1, 5), (1, 2, 6)] Map.empty)
   \<and> (case build_mesh_value_collection True True 2 2 [10, 11] (\<lambda>off. [(12, [(1, 0)])])
              (\<lambda>send. ([[1, 2], [0, 1, 1, 2]], [[4], [5, 6]]))
              [((10, 0), 7), ((12, 1), 8), ((11, 2), 9 :: nat)] of
         Inl e \<Rightarrow> None
       | Inr markers \<Rightarrow> Some (map markers [(0, 0), (0, 1), (1, 2), (1, 1)]))
       = Some [Some 7, Some 5, Some 6, None]"
proof -
  let ?ldata = "[((10, 0), 7), ((12, 1), 8), ((11, 2), 9 :: nat)]"
  let ?locate = "\<lambda>off :: nat list. [(12 :: nat, [(1 :: nat, 0 :: nat)])]"
  let ?exchange = "\<lambda>send :: nat list list \<times> nat list list.
      ([[1, 2], [0, 1, 1, 2 :: nat]], [[4], [5, 6 :: nat]])"
  have off: "off_process_of [10, 11] ?ldata = [12]"
    by (simp add: off_process_of_def)
  have loc: "local_triples [10, 11] ?ldata = [(0, 0, 7), (1, 2, 9)]"
    by (simp add: local_triples_def map_of_global_entity_indices_def upt_rec)
  have ml: "map_of_ldata ?ldata 12 = Some [1]"
    by (simp add: map_of_ldata_def set_insert_def upt_rec)
  have pushes: "all_pushes ?ldata [(12, [(1, 0)])] = [(1, 0, 1, 8)]"
    using ml by (simp add: all_pushes_def)
  have h: "list_all (\<lambda>q. fst q < (2::nat)) (all_pushes ?ldata (?locate (off_process_of [10, 11] ?ldata)))"
    using pushes by simp
  note inst = build_mesh_value_collection_pairing [of 2 ?ldata ?locate "[10, 11]" True 2 ?exchange, OF h]
  have up2: "[0..<2] = [0, 1]"
    by (simp add: upt_rec)
  from inst have w1: "apply_local [10, 11] ?ldata
       = (fold apply_triple [(0, 0, 7), (1, 2, 9)] Map.empty, [12])"
    using off loc by simp
  from inst have w2: "pack 2 ?ldata [(12, [(1, 0)])] = Inr ([[], [0, 1]], [[], [8]])"
    using pushes by (simp add: up2 triples_for_def index_buffer_def value_buffer_def)
  from inst
  have lists: "\<forall>tss (markers :: nat markers).
          (True \<longrightarrow> (\<forall>ts\<in>set tss. \<forall>t\<in>set ts. fst t < 2)) \<longrightarrow>
          receive True 2 (length tss) (map index_buffer tss) (map value_buffer tss) markers
            = Inr (fold apply_triple (concat tss) markers)"
    by blast
  note two = lists [THEN spec, of "[[(1, 2, 4)], [(0, 1, 5), (1, 2, 6)]]", THEN spec, of Map.empty]
  have rec: "receive True 2 2 [[1, 2], [0, 1, 1, 2]] [[4], [5, 6 :: nat]] Map.empty
       = Inr (fold apply_triple [(1, 2, 4), (0, 1, 5), (1, 2, 6)] Map.empty)"
    using two by (simp add: index_buffer_def value_buffer_def numeral_2_eq_2)
  from inst have "build_mesh_value_collection True True 2 2 [10, 11] ?locate ?exchange ?ldata
      = receive True 2 2 [[1, 2], [0, 1, 1, 2]] [[4], [5, 6]]
          (fold apply_triple [(0, 0, 7), (1, 2, 9)] Map.empty)"
    using pushes loc by (simp add: up2 triples_for_def index_buffer_def value_buffer_def)
  then have "(case build_mesh_value_collection True True 2 2 [10, 11] ?locate ?exchange ?ldata of
         Inl e \<Rightarrow> None
       | Inr markers \<Rightarrow> Some (map markers [(0, 0), (0, 1), (1, 2), (1, 1)]))
       = Some [Some 7, Some 5, Some 6, None]"
    by (simp add: receive_def receive_from_def up2 upt_rec apply_triple_def set_value_def)
  with w1 w2 rec h show ?thesis
    by simp
qed

end
